theory Spec2Isabelle
  imports Main
begin

section \<open>JavaScript values\<close>

text \<open>
  The values the script handles are parsed JSON bodies plus the JavaScript value
  \<open>undefined\<close>.  An object is the list of its own enumerable properties in
  enumeration order (the order of \<open>for ... in\<close> and of \<open>JSON.stringify\<close>); an array is
  the list of its elements.  Numbers are carried as integers: no function modelled below
  computes with them.  The values are trees: every body comes from \<open>JSON.parse\<close>, so no two
  places share an object and in-place mutation is modelled by returning the new value.
\<close>

datatype jsval =
    JUndef
  | JNull
  | JBool bool
  | JNum int
  | JStr string
  | JArr "jsval list"
  | JObj "(string \<times> jsval) list"

text \<open>\<open>typeof v === 'object'\<close>: true of \<open>null\<close>, of arrays and of objects.\<close>

fun typeof_object :: "jsval \<Rightarrow> bool" where
  "typeof_object JNull = True"
| "typeof_object (JArr xs) = True"
| "typeof_object (JObj ps) = True"
| "typeof_object v = False"

text \<open>Truthiness, as tested by \<open>if (v)\<close>, \<open>!v\<close>, \<open>v && ...\<close> and \<open>v || ...\<close>.\<close>

fun truthy :: "jsval \<Rightarrow> bool" where
  "truthy JUndef = False"
| "truthy JNull = False"
| "truthy (JBool b) = b"
| "truthy (JNum n) = (n \<noteq> 0)"
| "truthy (JStr s) = (s \<noteq> [])"
| "truthy (JArr xs) = True"
| "truthy (JObj ps) = True"

text \<open>
  The property read \<open>v.k\<close> for the keys the script reads (\<open>rid\<close>, \<open>rtype\<close>, \<open>address\<close>):
  none of them is a standard property of arrays, strings, numbers or booleans, so the read
  gives \<open>undefined\<close> on everything but an object that has the key.  Reading a property of
  \<open>null\<close> or \<open>undefined\<close> throws; the callers below test for that first, as the script does.
\<close>

fun get_prop :: "jsval \<Rightarrow> string \<Rightarrow> jsval" where
  "get_prop (JObj ps) k = (case map_of ps k of Some v \<Rightarrow> v | None \<Rightarrow> JUndef)"
| "get_prop v k = JUndef"

text \<open>
  A modern-API identifier as the script holds it: the result of looking a light up in the
  identifier map, a string or \<open>undefined\<close> (\<open>None\<close>).
\<close>

type_synonym rid = "string option"

fun rid_val :: "rid \<Rightarrow> jsval" where
  "rid_val None = JUndef"
| "rid_val (Some s) = JStr s"

section \<open>Reference Scanner: \<open>addLightReference\<close>\<close>

text \<open>
  The test \<open>typeof item === 'object' && item !== null && item.rid === r && item.rtype === 'light'\<close>
  (strict equality with a string or with \<open>undefined\<close> is equality of values), the object
  \<open>{rid: r, rtype: 'light'}\<close> that is pushed, and \<open>obj.some(...)\<close> with the same test.
\<close>

definition is_light_ref :: "jsval \<Rightarrow> rid \<Rightarrow> bool" where
  "is_light_ref item r \<longleftrightarrow>
     typeof_object item \<and> item \<noteq> JNull \<and> get_prop item ''rid'' = rid_val r \<and>
     get_prop item ''rtype'' = JStr ''light''"

definition light_ref :: "rid \<Rightarrow> jsval" where
  "light_ref r = JObj [(''rid'', rid_val r), (''rtype'', JStr ''light'')]"

definition some_light_ref :: "jsval list \<Rightarrow> rid \<Rightarrow> bool" where
  "some_light_ref arr r = list_ex (\<lambda>existingItem. is_light_ref existingItem r) arr"

text \<open>Nesting depth, used only to show that the scanner terminates.\<close>

fun height :: "jsval \<Rightarrow> nat" where
  "height (JArr xs) = Suc (foldr (\<lambda>x. max (height x)) xs 0)"
| "height (JObj ps) = Suc (foldr (\<lambda>p. max (height (snd p))) ps 0)"
| "height v = 0"

definition max_height :: "jsval list \<Rightarrow> nat" where
  "max_height xs = foldr (\<lambda>x. max (height x)) xs 0"

fun scan_measure ::
  "(jsval \<times> rid \<times> rid) + (jsval list \<times> nat \<times> bool \<times> rid \<times> rid) +
     ((string \<times> jsval) list \<times> bool \<times> rid \<times> rid) \<Rightarrow> nat \<times> nat \<times> nat" where
  "scan_measure (Inl (obj, old, new)) = (height obj, 1, 0)"
| "scan_measure (Inr (Inl (arr, i, modified, old, new))) =
     (Suc (max_height (drop i arr)), 0,
      2 * (length arr - i) + (if some_light_ref arr new then 0 else 1))"
| "scan_measure (Inr (Inr (ps, modified, old, new))) =
     (Suc (max_height (map snd ps)), 0, length ps)"

text \<open>
  The function itself.  \<open>array_loop arr i modified\<close> is the \<open>for\<close> loop over an array at
  index \<open>i\<close>: the bound \<open>obj.length\<close> is read again at every turn, so an element pushed
  during the loop is visited by it too, and \<open>obj.some\<close> looks at the array as it is at that
  moment.  \<open>object_loop\<close> is the \<open>for ... in\<close> loop over the own properties of an object.
  Both thread the local variable \<open>modified\<close>; the value returned with it is the array or
  object after the in-place changes.
\<close>

function addLightReference :: "jsval \<Rightarrow> rid \<Rightarrow> rid \<Rightarrow> jsval \<times> bool"
  and array_loop :: "jsval list \<Rightarrow> nat \<Rightarrow> bool \<Rightarrow> rid \<Rightarrow> rid \<Rightarrow> jsval list \<times> bool"
  and object_loop ::
    "(string \<times> jsval) list \<Rightarrow> bool \<Rightarrow> rid \<Rightarrow> rid \<Rightarrow> (string \<times> jsval) list \<times> bool"
where
  "addLightReference obj oldLightRid newLightRid =
     (case obj of
        JArr items \<Rightarrow>
          (case array_loop items 0 False oldLightRid newLightRid of
             (items', modified) \<Rightarrow> (JArr items', modified))
      | JObj props \<Rightarrow>
          (case object_loop props False oldLightRid newLightRid of
             (props', modified) \<Rightarrow> (JObj props', modified))
      | _ \<Rightarrow> (obj, False))"
| "array_loop arr i modified oldLightRid newLightRid =
     (if i < length arr then
        (let item = arr ! i in
         if is_light_ref item oldLightRid then
           (if \<not> some_light_ref arr newLightRid
            then array_loop (arr @ [light_ref newLightRid]) (Suc i) True oldLightRid newLightRid
            else array_loop arr (Suc i) modified oldLightRid newLightRid)
         else if typeof_object item then
           (case addLightReference item oldLightRid newLightRid of
              (item', m) \<Rightarrow>
                array_loop (arr[i := item']) (Suc i) (modified \<or> m) oldLightRid newLightRid)
         else array_loop arr (Suc i) modified oldLightRid newLightRid)
      else (arr, modified))"
| "object_loop [] modified oldLightRid newLightRid = ([], modified)"
| "object_loop ((key, value) # rest) modified oldLightRid newLightRid =
     (if typeof_object value then
        (case addLightReference value oldLightRid newLightRid of
           (value', m) \<Rightarrow>
             (case object_loop rest (modified \<or> m) oldLightRid newLightRid of
                (rest', modified') \<Rightarrow> ((key, value') # rest', modified')))
      else
        (case object_loop rest modified oldLightRid newLightRid of
           (rest', modified') \<Rightarrow> ((key, value) # rest', modified')))"
  by pat_completeness auto
termination
proof -
  have cons: "max_height (x # xs) = max (height x) (max_height xs)" for x xs
    by (simp add: max_height_def)
  have snoc: "max_height (xs @ [x]) = max (max_height xs) (height x)" for x xs
    by (induction xs) (simp_all add: max_height_def)
  have dropped: "max_height (drop i arr) = max (height (arr ! i)) (max_height (drop (Suc i) arr))"
    if "i < length arr" for i arr
    using that by (simp add: cons flip: Cons_nth_drop_Suc)
  have arr: "height (JArr xs) = Suc (max_height xs)" for xs
    by (simp add: max_height_def)
  have obj: "height (JObj ps) = Suc (max_height (map snd ps))" for ps
    by (simp add: max_height_def foldr_map comp_def)
  have matched: "0 < height item" if "is_light_ref item r" for item r
    using that by (cases item) (simp_all add: is_light_ref_def)
  have pushed: "height (light_ref r) = Suc 0" for r
    by (cases r) (simp_all add: light_ref_def)
  have found: "some_light_ref (xs @ [light_ref r]) r" for xs r
    by (simp add: some_light_ref_def is_light_ref_def light_ref_def)
  show ?thesis
    apply (relation "inv_image (less_than <*lex*> less_than <*lex*> less_than) scan_measure")
    apply (auto simp: arr obj cons snoc dropped pushed found simp del: height.simps(1,2)
        dest: matched)
    done
qed

declare addLightReference.simps [simp del] array_loop.simps [simp del]

text \<open>
  The result of a scan written as a structural recursion over the tree (the loops above
  are shown to compute it): at a sequence, the elements that are not themselves references
  to the old light are scanned in turn, and the new reference is appended once at the end
  if the sequence holds a reference to the old light and none to the new one; at a map,
  every value is scanned; a scalar is left alone.
\<close>

fun scan_and_augment :: "rid \<Rightarrow> rid \<Rightarrow> jsval \<Rightarrow> jsval" where
  "scan_and_augment old new (JArr xs) =
     (let ys = map (\<lambda>e. if is_light_ref e old then e else scan_and_augment old new e) xs
      in JArr (if some_light_ref xs old \<and> \<not> some_light_ref xs new
               then ys @ [light_ref new] else ys))"
| "scan_and_augment old new (JObj ps) =
     JObj (map (\<lambda>p. (fst p, scan_and_augment old new (snd p))) ps)"
| "scan_and_augment old new v = v"

text \<open>
  Places in a tree.  A path is a list of child indices, read from the root: at an array the
  index of an element, at an object the index of a property in enumeration order.
  \<open>subvalue v path\<close> is the value at the end of the path, if the path exists in \<open>v\<close>.
  \<open>reached old v path\<close> says that the path exists and never steps into an element of an
  array that is itself a reference to the old light.
\<close>

fun children :: "jsval \<Rightarrow> jsval list" where
  "children (JArr xs) = xs"
| "children (JObj ps) = map snd ps"
| "children v = []"

fun is_array :: "jsval \<Rightarrow> bool" where
  "is_array (JArr xs) = True"
| "is_array v = False"

fun subvalue :: "jsval \<Rightarrow> nat list \<Rightarrow> jsval option" where
  "subvalue v [] = Some v"
| "subvalue v (i # path) =
     (if i < length (children v) then subvalue (children v ! i) path else None)"

fun reached :: "rid \<Rightarrow> jsval \<Rightarrow> nat list \<Rightarrow> bool" where
  "reached old v [] = True"
| "reached old v (i # path) =
     (i < length (children v) \<and>
      \<not> (is_array v \<and> is_light_ref (children v ! i) old) \<and>
      reached old (children v ! i) path)"

section \<open>JSON round trip and serialisation\<close>

text \<open>
  \<open>JSON.parse(JSON.stringify(v))\<close>, the deep copy the script takes before it modifies
  anything: a property whose value is \<open>undefined\<close> is dropped, an \<open>undefined\<close> array element
  becomes \<open>null\<close>, everything else is rebuilt as it is.  The script copies only values it
  has tested to be truthy, so the case of \<open>undefined\<close> itself is never reached.
\<close>

fun deep_copy :: "jsval \<Rightarrow> jsval" where
  "deep_copy (JArr xs) = JArr (map (\<lambda>x. if x = JUndef then JNull else deep_copy x) xs)"
| "deep_copy (JObj ps) =
     JObj (concat (map (\<lambda>p. if snd p = JUndef then [] else [(fst p, deep_copy (snd p))]) ps))"
| "deep_copy v = v"

definition deep_copy_items :: "jsval list \<Rightarrow> jsval list" where
  "deep_copy_items xs = map (\<lambda>x. if x = JUndef then JNull else deep_copy x) xs"

text \<open>A parsed JSON body: a value in which \<open>undefined\<close> does not occur.\<close>

fun is_json :: "jsval \<Rightarrow> bool" where
  "is_json JUndef = False"
| "is_json (JArr xs) = list_all is_json xs"
| "is_json (JObj ps) = list_all (\<lambda>p. is_json (snd p)) ps"
| "is_json v = True"

text \<open>
  \<open>JSON.stringify\<close>.  Strings are quoted with the escapes of the standard; integers are
  written in decimal.  The text of \<open>undefined\<close> is the one it has as an array element.
\<close>

definition digit_char :: "nat \<Rightarrow> char" where
  "digit_char n = char_of (48 + n)"

fun decimal :: "nat \<Rightarrow> string" where
  "decimal n = (if n < 10 then [digit_char n] else decimal (n div 10) @ [digit_char (n mod 10)])"

declare decimal.simps [simp del]

definition number_text :: "int \<Rightarrow> string" where
  "number_text n = (if n < 0 then CHR ''-'' # decimal (nat (- n)) else decimal (nat n))"

definition hex_char :: "nat \<Rightarrow> char" where
  "hex_char n = (if n < 10 then char_of (48 + n) else char_of (87 + n))"

definition escape_char :: "char \<Rightarrow> string" where
  "escape_char c =
     (if c = CHR 0x22 then [CHR 0x5C, CHR 0x22]
      else if c = CHR 0x5C then [CHR 0x5C, CHR 0x5C]
      else if c = CHR 0x08 then [CHR 0x5C, CHR ''b'']
      else if c = CHR 0x09 then [CHR 0x5C, CHR ''t'']
      else if c = CHR 0x0A then [CHR 0x5C, CHR ''n'']
      else if c = CHR 0x0C then [CHR 0x5C, CHR ''f'']
      else if c = CHR 0x0D then [CHR 0x5C, CHR ''r'']
      else if (of_char c :: nat) < 32
        then [CHR 0x5C, CHR ''u'', CHR ''0'', CHR ''0'',
              hex_char (of_char c div 16), hex_char (of_char c mod 16)]
      else [c])"

definition quote :: "string \<Rightarrow> string" where
  "quote s = CHR 0x22 # concat (map escape_char s) @ [CHR 0x22]"

fun join_commas :: "string list \<Rightarrow> string" where
  "join_commas [] = []"
| "join_commas [x] = x"
| "join_commas (x # y # rest) = x @ '','' @ join_commas (y # rest)"

fun stringify :: "jsval \<Rightarrow> string" where
  "stringify JUndef = ''null''"
| "stringify JNull = ''null''"
| "stringify (JBool b) = (if b then ''true'' else ''false'')"
| "stringify (JNum n) = number_text n"
| "stringify (JStr s) = quote s"
| "stringify (JArr xs) = ''['' @ join_commas (map stringify xs) @ '']''"
| "stringify (JObj ps) =
     ''{'' @ join_commas (concat (map (\<lambda>p. if snd p = JUndef then []
                                            else [quote (fst p) @ '':'' @ stringify (snd p)]) ps))
       @ ''}''"

text \<open>
  \<open>s.startsWith(p)\<close> and \<open>s.includes(x)\<close>.  \<open>includes\<close> turns its argument into a string
  first, so that \<open>undefined\<close> is searched for as the text \<open>undefined\<close>.
\<close>

definition startsWith :: "string \<Rightarrow> string \<Rightarrow> bool" where
  "startsWith s p \<longleftrightarrow> take (length p) s = p"

fun includes_text :: "string \<Rightarrow> string \<Rightarrow> bool" where
  "includes_text [] sub = (sub = [])"
| "includes_text (c # cs) sub = (startsWith (c # cs) sub \<or> includes_text cs sub)"

definition rid_text :: "rid \<Rightarrow> string" where
  "rid_text r = (case r of None \<Rightarrow> ''undefined'' | Some g \<Rightarrow> g)"

definition includes_rid :: "string \<Rightarrow> rid \<Rightarrow> bool" where
  "includes_rid s r = includes_text s (rid_text r)"

section \<open>Requests to the bridge\<close>

text \<open>
  A request the script sends, by endpoint.  A request that fails throws; where the script
  catches the error its effect on control flow is written out in the functions below.  What
  a \<open>GET\<close> returns is an input of the function that sends it.
  \<^item> \<open>GetGroup g\<close>: \<open>GET groups/g\<close>; \<open>PutGroupLights g ls\<close>: \<open>PUT groups/g {lights: ls}\<close>.
  \<^item> \<open>GetScene s\<close>: \<open>GET scenes/s\<close>; \<open>PutSceneLightstate s l st\<close>:
    \<open>PUT scenes/s/lightstates/l st\<close>; \<open>PutSceneLights s ls\<close>: \<open>PUT scenes/s {lights: ls}\<close>.
  \<^item> \<open>PutRule r cs as\<close>: \<open>PUT rules/r\<close> with the \<open>conditions\<close> and \<open>actions\<close> arrays that
    the payload includes.
  \<^item> \<open>GetBehaviorInstance i\<close>: \<open>GET resource/behavior_instance/i\<close>;
    \<open>PutBehaviorInstance i c\<close>: \<open>PUT resource/behavior_instance/i {configuration: c}\<close>.
  \<^item> \<open>PutLightName l n\<close>: \<open>PUT lights/l {name: n}\<close>; \<open>PutLightMetadataName g n\<close>:
    \<open>PUT resource/light/g {metadata: {name: n}}\<close>.
\<close>

datatype error = TypeError | RequestFailed

type_synonym lightstate = "(string \<times> jsval) list"

datatype request =
    GetGroup string
  | PutGroupLights string "string list"
  | GetScene string
  | PutSceneLightstate string string lightstate
  | PutSceneLights string "string list"
  | PutRule string "jsval list option" "jsval list option"
  | GetBehaviorInstance string
  | PutBehaviorInstance string jsval
  | PutLightName string string
  | PutLightMetadataName string string

fun is_mutation :: "request \<Rightarrow> bool" where
  "is_mutation (GetGroup g) = False"
| "is_mutation (GetScene s) = False"
| "is_mutation (GetBehaviorInstance i) = False"
| "is_mutation r = True"

section \<open>Identifier Reconciler\<close>

text \<open>
  \<open>light.id_v1.match(/\/lights\/(\d+)$/)\<close>: the pattern is tried at every position from
  the left; at a position it needs the text \<open>/lights/\<close>, then one or more digits, then the
  end of the string.  The result is the digits (group 1) of the first match.
\<close>

definition is_digit :: "char \<Rightarrow> bool" where
  "is_digit c \<longleftrightarrow> c \<in> set ''0123456789''"

definition lights_path :: string where
  "lights_path = ''/lights/''"

definition match_here :: "string \<Rightarrow> string option" where
  "match_here s =
     (if startsWith s lights_path \<and> drop (length lights_path) s \<noteq> [] \<and>
         list_all is_digit (drop (length lights_path) s)
      then Some (drop (length lights_path) s) else None)"

fun match_lights_id :: "string \<Rightarrow> string option" where
  "match_lights_id [] = None"
| "match_lights_id (c # cs) =
     (case match_here (c # cs) of Some v1Id \<Rightarrow> Some v1Id | None \<Rightarrow> match_lights_id cs)"

text \<open>
  A light of the legacy collection (an entry of \<open>allV1Lights\<close>, keyed by its numeric id)
  and a light resource of the modern collection (an element of \<open>v2Data.data\<close>): its GUID
  \<open>id\<close> and its back-reference \<open>id_v1\<close>, which may be absent.
\<close>

record v1_light =
  light_name :: string

record v2_light =
  light_id :: string
  id_v1 :: "string option"

text \<open>The \<open>forEach\<close> that fills \<open>v1ToV2IdMap\<close>, starting from the empty object.\<close>

fun build_id_map :: "v2_light list \<Rightarrow> (string \<rightharpoonup> string) \<Rightarrow> (string \<rightharpoonup> string)" where
  "build_id_map [] m = m"
| "build_id_map (light # rest) m =
     build_id_map rest
       (case id_v1 light of
          None \<Rightarrow> m
        | Some path \<Rightarrow>
            if path = [] then m
            else (case match_lights_id path of
                    None \<Rightarrow> m
                  | Some v1Id \<Rightarrow> if v1Id \<noteq> [] then m(v1Id \<mapsto> light_id light) else m))"

definition v1ToV2IdMap :: "v2_light list \<Rightarrow> (string \<rightharpoonup> string)" where
  "v1ToV2IdMap data = build_id_map data Map.empty"

text \<open>
  The state the fetch handler leaves behind on well-formed bodies: \<open>allV1Lights\<close> is the
  legacy collection as received, \<open>v1ToV2IdMap\<close> is built from the modern one alone.
\<close>

definition fetch_lights ::
  "(string \<times> v1_light) list \<Rightarrow> v2_light list \<Rightarrow>
     (string \<times> v1_light) list \<times> (string \<rightharpoonup> string)" where
  "fetch_lights v1Data data = (v1Data, v1ToV2IdMap data)"

text \<open>
  For stating what the map holds: \<open>s.endsWith(suffix)\<close>, and the modern light resources that
  carry a back-reference to a numeric id, that is, whose \<open>id_v1\<close> is a path ending in
  \<open>/lights/\<close> followed by that id, a non-empty run of digits.
\<close>

definition endsWith :: "string \<Rightarrow> string \<Rightarrow> bool" where
  "endsWith s suffix \<longleftrightarrow>
     length suffix \<le> length s \<and> drop (length s - length suffix) s = suffix"

definition back_reference :: "v2_light \<Rightarrow> string \<Rightarrow> bool" where
  "back_reference light v1Id \<longleftrightarrow>
     (case id_v1 light of
        None \<Rightarrow> False
      | Some path \<Rightarrow>
          v1Id \<noteq> [] \<and> list_all is_digit v1Id \<and> endsWith path (lights_path @ v1Id))"

definition v1_key :: "v2_light \<Rightarrow> string option" where
  "v1_key light = (case id_v1 light of None \<Rightarrow> None | Some path \<Rightarrow> match_lights_id path)"

section \<open>Group Migrator\<close>

text \<open>
  A group as the legacy API returns it; only its \<open>lights\<close> array (which may be absent) is
  read.  \<open>lights_include ls l\<close> is \<open>ls?.includes(l)\<close>.
\<close>

record group =
  group_lights :: "string list option"

definition lights_include :: "string list option \<Rightarrow> string \<Rightarrow> bool" where
  "lights_include ls l = (case ls of None \<Rightarrow> False | Some xs \<Rightarrow> l \<in> set xs)"

text \<open>\<open>ls || []\<close>.\<close>

definition lights_or_empty :: "string list option \<Rightarrow> string list" where
  "lights_or_empty ls = (case ls of None \<Rightarrow> [] | Some xs \<Rightarrow> xs)"

text \<open>Step 1: the ids of the groups of \<open>groupsData\<close> whose list holds the old light.\<close>

fun groupsWithOldLight :: "(string \<times> group) list \<Rightarrow> string \<Rightarrow> string list" where
  "groupsWithOldLight [] selectedOldLightV1Id = []"
| "groupsWithOldLight ((groupId, g) # rest) selectedOldLightV1Id =
     (if lights_include (group_lights g) selectedOldLightV1Id
      then groupId # groupsWithOldLight rest selectedOldLightV1Id
      else groupsWithOldLight rest selectedOldLightV1Id)"

text \<open>
  Step 2: each of these groups is fetched again and, unless its list already holds the new
  light, the list with the new light appended is sent back.  A failed fetch is caught and
  the loop goes on; so is a failed \<open>PUT\<close>.
\<close>

fun add_new_to_groups ::
  "(string \<Rightarrow> error + group) \<Rightarrow> string list \<Rightarrow> string \<Rightarrow> request list" where
  "add_new_to_groups getGroup [] selectedNewLightV1Id = []"
| "add_new_to_groups getGroup (groupId # rest) selectedNewLightV1Id =
     GetGroup groupId #
     (case getGroup groupId of
        Inl e \<Rightarrow> add_new_to_groups getGroup rest selectedNewLightV1Id
      | Inr g \<Rightarrow>
          (let currentLights = lights_or_empty (group_lights g) in
           if selectedNewLightV1Id \<notin> set currentLights
           then PutGroupLights groupId (currentLights @ [selectedNewLightV1Id])
                  # add_new_to_groups getGroup rest selectedNewLightV1Id
           else add_new_to_groups getGroup rest selectedNewLightV1Id))"

text \<open>
  A bridge that answers: its groups by id, what it returns for \<open>GET groups/g\<close>, and what a
  \<open>PUT\<close> of a light list leaves in it.  \<open>migrate_groups\<close> is steps 1 and 2 against it.
\<close>

definition get_group :: "(string \<times> group) list \<Rightarrow> string \<Rightarrow> error + group" where
  "get_group gs groupId =
     (case map_of gs groupId of None \<Rightarrow> Inl RequestFailed | Some g \<Rightarrow> Inr g)"

fun store_request :: "(string \<times> group) list \<Rightarrow> request \<Rightarrow> (string \<times> group) list" where
  "store_request gs (PutGroupLights groupId ls) =
     map (\<lambda>p. if fst p = groupId then (fst p, (snd p)\<lparr>group_lights := Some ls\<rparr>) else p) gs"
| "store_request gs r = gs"

definition migrate_groups :: "(string \<times> group) list \<Rightarrow> string \<Rightarrow> string \<Rightarrow> request list" where
  "migrate_groups gs old new = add_new_to_groups (get_group gs) (groupsWithOldLight gs old) new"

text \<open>
  For stating what the group migrator does: the group a request is about, the groups that
  are to get the new light, the list such a group is to be given, the requests one group
  gives rise to when its fetch succeeds, and the group as the bridge holds it afterwards.
\<close>

fun request_group :: "request \<Rightarrow> string option" where
  "request_group (GetGroup g) = Some g"
| "request_group (PutGroupLights g ls) = Some g"
| "request_group r = None"

definition wants_new_light :: "string \<Rightarrow> string \<Rightarrow> string \<times> group \<Rightarrow> bool" where
  "wants_new_light old new p \<longleftrightarrow>
     lights_include (group_lights (snd p)) old \<and> \<not> lights_include (group_lights (snd p)) new"

definition with_new_light :: "string \<Rightarrow> string \<times> group \<Rightarrow> string list" where
  "with_new_light new p = lights_or_empty (group_lights (snd p)) @ [new]"

definition group_requests :: "string \<Rightarrow> string \<Rightarrow> string \<times> group \<Rightarrow> request list" where
  "group_requests old new p =
     (if lights_include (group_lights (snd p)) old
      then GetGroup (fst p) #
           (if wants_new_light old new p then [PutGroupLights (fst p) (with_new_light new p)] else [])
      else [])"

definition after_migration :: "string \<Rightarrow> string \<Rightarrow> string \<times> group \<Rightarrow> string \<times> group" where
  "after_migration old new p =
     (if wants_new_light old new p
      then (fst p, (snd p)\<lparr>group_lights := Some (with_new_light new p)\<rparr>)
      else p)"

section \<open>Scene Migrator\<close>

record scene =
  scene_lights :: "string list option"
  lightstates :: "(string \<times> lightstate) list option"

text \<open>
  \<open>scene?.lights?.includes(old) || scene?.lightstates?.[old]\<close>; a light state is an
  object, hence truthy when present.
\<close>

definition old_light_state :: "scene \<Rightarrow> string \<Rightarrow> lightstate option" where
  "old_light_state sc l = (case lightstates sc of None \<Rightarrow> None | Some m \<Rightarrow> map_of m l)"

definition involves_light :: "scene \<Rightarrow> string \<Rightarrow> bool" where
  "involves_light sc l \<longleftrightarrow> lights_include (scene_lights sc) l \<or> old_light_state sc l \<noteq> None"

text \<open>
  First pass: every scene id of \<open>scenesData\<close> is fetched; a failed fetch is caught and
  logged, and the loop goes on with the next id.
\<close>

fun scenesWithOldLight ::
  "(string \<Rightarrow> error + scene) \<Rightarrow> string list \<Rightarrow> string \<Rightarrow> (string \<times> scene) list" where
  "scenesWithOldLight getScene [] selectedOldLightV1Id = []"
| "scenesWithOldLight getScene (sceneId # rest) selectedOldLightV1Id =
     (case getScene sceneId of
        Inl e \<Rightarrow> scenesWithOldLight getScene rest selectedOldLightV1Id
      | Inr sc \<Rightarrow>
          if involves_light sc selectedOldLightV1Id
          then (sceneId, sc) # scenesWithOldLight getScene rest selectedOldLightV1Id
          else scenesWithOldLight getScene rest selectedOldLightV1Id)"

text \<open>
  Second pass, over the stored scenes.  \<open>fails r\<close> says that request \<open>r\<close> throws.  A failed
  copy of the light state leaves the \<open>try\<close> block of its scene; a failed list update is
  caught on its own.
\<close>

fun modify_scenes ::
  "(request \<Rightarrow> bool) \<Rightarrow> (string \<times> scene) list \<Rightarrow> string \<Rightarrow> string \<Rightarrow> request list" where
  "modify_scenes fails [] old new = []"
| "modify_scenes fails ((sceneId, sc) # rest) old new =
     (let listUpdate =
            (if lights_include (scene_lights sc) old \<and> \<not> lights_include (scene_lights sc) new
             then [PutSceneLights sceneId (lights_or_empty (scene_lights sc) @ [new])]
             else [])
      in (case old_light_state sc old of
            Some oldLightState \<Rightarrow>
              PutSceneLightstate sceneId new oldLightState
                # (if fails (PutSceneLightstate sceneId new oldLightState) then [] else listUpdate)
          | None \<Rightarrow> listUpdate)
         @ modify_scenes fails rest old new)"

definition migrate_scenes ::
  "(string \<Rightarrow> error + scene) \<Rightarrow> (request \<Rightarrow> bool) \<Rightarrow> string list \<Rightarrow> string \<Rightarrow> string \<Rightarrow>
     request list" where
  "migrate_scenes getScene fails sceneIds old new =
     map GetScene sceneIds @ modify_scenes fails (scenesWithOldLight getScene sceneIds old) old new"

text \<open>The scene a request is about.\<close>

fun request_scene :: "request \<Rightarrow> string option" where
  "request_scene (GetScene s) = Some s"
| "request_scene (PutSceneLightstate s l st) = Some s"
| "request_scene (PutSceneLights s ls) = Some s"
| "request_scene r = None"

section \<open>Rule Migrator\<close>

text \<open>\<open>itemAddressExists(itemsArray, newAddress)\<close>.\<close>

definition itemAddressExists :: "jsval list option \<Rightarrow> string \<Rightarrow> bool" where
  "itemAddressExists itemsArray newAddress =
     (case itemsArray of
        None \<Rightarrow> False
      | Some items \<Rightarrow>
          list_ex (\<lambda>item. truthy item \<and> get_prop item ''address'' = JStr newAddress) items)"

text \<open>
  \<open>{...condition, address: newAddress}\<close>: the properties of the condition in their order,
  with the value of \<open>address\<close> replaced where it stands.  Only an object whose \<open>address\<close> is
  a string gets here.
\<close>

fun set_prop :: "(string \<times> jsval) list \<Rightarrow> string \<Rightarrow> jsval \<Rightarrow> (string \<times> jsval) list" where
  "set_prop [] k v = [(k, v)]"
| "set_prop ((k', v') # ps) k v =
     (if k' = k then (k, v) # ps else (k', v') # set_prop ps k v)"

definition with_address :: "jsval \<Rightarrow> string \<Rightarrow> jsval" where
  "with_address item newAddress =
     (case item of
        JObj ps \<Rightarrow> JObj (set_prop ps ''address'' (JStr newAddress))
      | _ \<Rightarrow> JObj [(''address'', JStr newAddress)])"

definition light_address_prefix :: "string \<Rightarrow> string" where
  "light_address_prefix l = ''/lights/'' @ l @ ''/''"

text \<open>
  The body of \<open>rule.conditions.forEach\<close> (and of \<open>rule.actions.forEach\<close>), threading the
  pair of \<open>modifiedConditions\<close> and \<open>needsUpdate\<close>.  \<open>original\<close> is \<open>rule.conditions\<close>, the
  list being walked.  Reading \<open>address\<close> of \<open>null\<close>, or calling \<open>startsWith\<close> on a truthy
  address that is not a string, throws a \<open>TypeError\<close>, which ends the run.
\<close>

fun add_new_items ::
  "string \<Rightarrow> string \<Rightarrow> jsval list option \<Rightarrow> jsval list \<Rightarrow> jsval list \<times> bool \<Rightarrow>
     error + jsval list \<times> bool" where
  "add_new_items oldLightAddressPrefix newLightAddressPrefix original [] st = Inr st"
| "add_new_items oldLightAddressPrefix newLightAddressPrefix original (item # rest)
       (modifiedItems, needsUpdate) =
     (if item = JNull \<or> item = JUndef then Inl TypeError
      else if \<not> truthy (get_prop item ''address'')
        then add_new_items oldLightAddressPrefix newLightAddressPrefix original rest
               (modifiedItems, needsUpdate)
      else (case get_prop item ''address'' of
              JStr address \<Rightarrow>
                if startsWith address oldLightAddressPrefix then
                  (let addressSuffix = drop (length oldLightAddressPrefix) address;
                       newAddress = newLightAddressPrefix @ addressSuffix in
                   if \<not> itemAddressExists original newAddress
                   then add_new_items oldLightAddressPrefix newLightAddressPrefix original rest
                          (modifiedItems @ [with_address item newAddress], True)
                   else add_new_items oldLightAddressPrefix newLightAddressPrefix original rest
                          (modifiedItems, needsUpdate))
                else add_new_items oldLightAddressPrefix newLightAddressPrefix original rest
                       (modifiedItems, needsUpdate)
            | _ \<Rightarrow> Inl TypeError))"

definition check_items ::
  "string \<Rightarrow> string \<Rightarrow> jsval list option \<Rightarrow> jsval list \<times> bool \<Rightarrow> error + jsval list \<times> bool" where
  "check_items oldLightAddressPrefix newLightAddressPrefix original st =
     (case original of
        None \<Rightarrow> Inr st
      | Some items \<Rightarrow> add_new_items oldLightAddressPrefix newLightAddressPrefix original items st)"

record rule =
  conditions :: "jsval list option"
  actions :: "jsval list option"

text \<open>
  One turn of the loop over \<open>allRules\<close>, up to the test of \<open>needsUpdate\<close>: the values of
  \<open>modifiedConditions\<close>, \<open>modifiedActions\<close> and \<open>needsUpdate\<close>.
\<close>

definition modify_rule ::
  "rule \<Rightarrow> string \<Rightarrow> string \<Rightarrow> error + jsval list \<times> jsval list \<times> bool" where
  "modify_rule r selectedOldLightV1Id selectedNewLightV1Id =
     (let oldLightAddressPrefix = light_address_prefix selectedOldLightV1Id;
          newLightAddressPrefix = light_address_prefix selectedNewLightV1Id;
          modifiedConditions = (case conditions r of Some cs \<Rightarrow> deep_copy_items cs | None \<Rightarrow> []);
          modifiedActions = (case actions r of Some as \<Rightarrow> deep_copy_items as | None \<Rightarrow> [])
      in case check_items oldLightAddressPrefix newLightAddressPrefix (conditions r)
                (modifiedConditions, False) of
           Inl e \<Rightarrow> Inl e
         | Inr (modifiedConditions', needsUpdate) \<Rightarrow>
             (case check_items oldLightAddressPrefix newLightAddressPrefix (actions r)
                     (modifiedActions, needsUpdate) of
                Inl e \<Rightarrow> Inl e
              | Inr (modifiedActions', needsUpdate') \<Rightarrow>
                  Inr (modifiedConditions', modifiedActions', needsUpdate')))"

text \<open>
  The request of that turn, if any: an array goes into the payload when it is not empty,
  and the \<open>PUT\<close> is sent when the payload has a key.
\<close>

definition rule_request :: "string \<Rightarrow> rule \<Rightarrow> string \<Rightarrow> string \<Rightarrow> error + request option" where
  "rule_request ruleId r old new =
     (case modify_rule r old new of
        Inl e \<Rightarrow> Inl e
      | Inr (modifiedConditions, modifiedActions, needsUpdate) \<Rightarrow>
          if needsUpdate then
            (let payloadConditions = (if modifiedConditions \<noteq> [] then Some modifiedConditions else None);
                 payloadActions = (if modifiedActions \<noteq> [] then Some modifiedActions else None)
             in if payloadConditions \<noteq> None \<or> payloadActions \<noteq> None
                then Inr (Some (PutRule ruleId payloadConditions payloadActions))
                else Inr None)
          else Inr None)"

text \<open>
  The loop over all rules: the requests sent, and the error that stopped the run if one
  was thrown.
\<close>

fun update_rules ::
  "(string \<times> rule) list \<Rightarrow> string \<Rightarrow> string \<Rightarrow> request list \<times> error option" where
  "update_rules [] old new = ([], None)"
| "update_rules ((ruleId, r) # rest) old new =
     (case rule_request ruleId r old new of
        Inl e \<Rightarrow> ([], Some e)
      | Inr None \<Rightarrow> update_rules rest old new
      | Inr (Some req) \<Rightarrow>
          (case update_rules rest old new of (reqs, stopped) \<Rightarrow> (req # reqs, stopped)))"

text \<open>
  For stating what the rule migrator does: the items of a list that may be absent, the
  test that an item carries a given address, the new address that corresponds to an item
  whose address starts with the prefix of the old light (none for any other item), and the
  items to be created for a list, one for every item that has such a new address unless
  the original list already holds an item with that address.
\<close>

definition rule_items :: "jsval list option \<Rightarrow> jsval list" where
  "rule_items original = (case original of None \<Rightarrow> [] | Some items \<Rightarrow> items)"

definition has_address :: "string \<Rightarrow> jsval \<Rightarrow> bool" where
  "has_address a item \<longleftrightarrow> get_prop item ''address'' = JStr a"

definition wanted_address :: "string \<Rightarrow> string \<Rightarrow> jsval \<Rightarrow> string option" where
  "wanted_address old new item =
     (case get_prop item ''address'' of
        JStr a \<Rightarrow>
          if startsWith a (light_address_prefix old)
          then Some (light_address_prefix new @ drop (length (light_address_prefix old)) a)
          else None
      | _ \<Rightarrow> None)"

definition added_items :: "string \<Rightarrow> string \<Rightarrow> jsval list option \<Rightarrow> jsval list \<Rightarrow> jsval list" where
  "added_items old new original items =
     concat (map (\<lambda>item. case wanted_address old new item of
                            Some a \<Rightarrow> if itemAddressExists original a then [] else [with_address item a]
                          | None \<Rightarrow> []) items)"

text \<open>
  An item the loop can read without a \<open>TypeError\<close>: not \<open>null\<close>, and with an \<open>address\<close>
  that is a string or falsy.
\<close>

definition item_address_ok :: "jsval \<Rightarrow> bool" where
  "item_address_ok item \<longleftrightarrow>
     item \<noteq> JNull \<and> item \<noteq> JUndef \<and>
     (case get_prop item ''address'' of JStr a \<Rightarrow> True | v \<Rightarrow> \<not> truthy v)"

section \<open>Automation Migrator\<close>

text \<open>
  A behavior instance: its \<open>id\<close> (falsy when empty) and its \<open>configuration\<close>
  (\<open>undefined\<close> when absent).  \<open>getInstance i\<close> is the answer to the fetch of the full
  instance: a failure, or \<open>detailedInstanceData?.data?.[0]\<close>.
\<close>

record behavior_instance =
  instance_id :: string
  configuration :: jsval

fun update_behavior_instances ::
  "(string \<Rightarrow> error + behavior_instance option) \<Rightarrow> behavior_instance list \<Rightarrow> rid \<Rightarrow> rid \<Rightarrow>
     request list" where
  "update_behavior_instances getInstance [] oldLightV2Id newLightV2Id = []"
| "update_behavior_instances getInstance (inst # rest) oldLightV2Id newLightV2Id =
     (if instance_id inst = [] \<or> \<not> truthy (configuration inst)
      then update_behavior_instances getInstance rest oldLightV2Id newLightV2Id
      else if includes_rid (stringify (configuration inst)) oldLightV2Id then
        GetBehaviorInstance (instance_id inst) #
        (case getInstance (instance_id inst) of
           Inl e \<Rightarrow> []
         | Inr None \<Rightarrow> []
         | Inr (Some detailedInstance) \<Rightarrow>
             if \<not> truthy (configuration detailedInstance) then []
             else (case addLightReference (deep_copy (configuration detailedInstance))
                          oldLightV2Id newLightV2Id of
                     (modifiedConfig, wasModified) \<Rightarrow>
                       if wasModified
                       then [PutBehaviorInstance (instance_id inst) modifiedConfig]
                       else []))
        @ update_behavior_instances getInstance rest oldLightV2Id newLightV2Id
      else update_behavior_instances getInstance rest oldLightV2Id newLightV2Id)"

text \<open>
  The step as the click handler runs it: the two GUIDs are what the identifier map holds
  for the selected lights, \<open>undefined\<close> for a light it does not hold.
\<close>

definition migrate_automations ::
  "(string \<rightharpoonup> string) \<Rightarrow> string \<Rightarrow> string \<Rightarrow> (string \<Rightarrow> error + behavior_instance option) \<Rightarrow>
     behavior_instance list \<Rightarrow> request list" where
  "migrate_automations idMap selectedOldLightV1Id selectedNewLightV1Id getInstance instances =
     update_behavior_instances getInstance instances
       (idMap selectedOldLightV1Id) (idMap selectedNewLightV1Id)"

section \<open>Identity Transfer\<close>

text \<open>The pair of \<open>oldBulbTargetName\<close> and \<open>newBulbTargetName\<close>.\<close>

definition rename_targets :: "bool \<Rightarrow> string \<Rightarrow> string \<times> string" where
  "rename_targets useAltRename originalOldLightName =
     (if useAltRename
      then (originalOldLightName, originalOldLightName @ '' (new)'')
      else (originalOldLightName @ '' (old)'', originalOldLightName))"

text \<open>
  The rename calls of one bulb: the legacy one, then the modern one if the GUID is truthy.
  A failed call is caught and the next one is still made.
\<close>

definition rename_calls :: "string \<Rightarrow> rid \<Rightarrow> string \<Rightarrow> request list" where
  "rename_calls v1Id v2Id targetName =
     PutLightName v1Id targetName #
     (if truthy (rid_val v2Id) then [PutLightMetadataName (rid_text v2Id) targetName] else [])"

definition rename_old_bulb :: "string \<Rightarrow> rid \<Rightarrow> string \<Rightarrow> string \<Rightarrow> request list" where
  "rename_old_bulb selectedOldLightV1Id oldLightV2Id oldBulbTargetName originalOldLightName =
     (if oldBulbTargetName \<noteq> originalOldLightName
      then rename_calls selectedOldLightV1Id oldLightV2Id oldBulbTargetName
      else [])"

definition rename_new_bulb :: "string \<Rightarrow> rid \<Rightarrow> string \<Rightarrow> request list" where
  "rename_new_bulb selectedNewLightV1Id newLightV2Id newBulbTargetName =
     rename_calls selectedNewLightV1Id newLightV2Id newBulbTargetName"

text \<open>
  The requests of the two rename steps for a selection, from the state the fetch left, as
  they are made when the run gets to them: \<open>None\<close> when the handler returns at once (no
  selection, the same light twice, or a light that is not in \<open>allV1Lights\<close>).
\<close>

definition rename_bulbs ::
  "(string \<times> v1_light) list \<Rightarrow> (string \<rightharpoonup> string) \<Rightarrow> string \<Rightarrow> string \<Rightarrow> bool \<Rightarrow>
     (request list \<times> request list) option" where
  "rename_bulbs allV1Lights idMap selectedOldLightV1Id selectedNewLightV1Id useAltRename =
     (if selectedOldLightV1Id = [] \<or> selectedNewLightV1Id = [] \<or>
         selectedOldLightV1Id = selectedNewLightV1Id then None
      else (case (map_of allV1Lights selectedOldLightV1Id, map_of allV1Lights selectedNewLightV1Id) of
              (Some oldLight, Some newLight) \<Rightarrow>
                (case rename_targets useAltRename (light_name oldLight) of
                   (oldBulbTargetName, newBulbTargetName) \<Rightarrow>
                     Some (rename_old_bulb selectedOldLightV1Id (idMap selectedOldLightV1Id)
                             oldBulbTargetName (light_name oldLight),
                           rename_new_bulb selectedNewLightV1Id (idMap selectedNewLightV1Id)
                             newBulbTargetName))
            | _ \<Rightarrow> None))"


section \<open>Example data\<close>

text \<open>
  A configuration with the reference to \<open>guidA\<close> in three sequences, and a tree in which
  a sequence with that reference lies inside an element that is such a reference itself.
\<close>

definition three_sequences :: jsval where
  "three_sequences =
     JObj [(''targets'', JArr [light_ref (Some ''guidA''), light_ref (Some ''guidB'')]),
           (''where'', JArr [JObj [(''group'', JArr [light_ref (Some ''guidA'')])]]),
           (''others'', JArr [JStr ''x'', light_ref (Some ''guidA'')]),
           (''names'', JArr [JStr ''guidA''])]"

definition nested_in_reference :: jsval where
  "nested_in_reference =
     JArr [JObj [(''rid'', JStr ''guidA''), (''rtype'', JStr ''light''),
                 (''members'', JArr [light_ref (Some ''guidA'')])]]"

text \<open>
  A rule with two conditions on the same address of light 5 (the state equals a value, and
  the state has changed), an action on light 5 and the same action on light 7.
\<close>

definition condition_on_eq :: jsval where
  "condition_on_eq =
     JObj [(''address'', JStr ''/lights/5/state/on''), (''operator'', JStr ''eq''),
           (''value'', JStr ''true'')]"

definition condition_on_dx :: jsval where
  "condition_on_dx =
     JObj [(''address'', JStr ''/lights/5/state/on''), (''operator'', JStr ''dx'')]"

definition action_old :: jsval where
  "action_old = JObj [(''address'', JStr ''/lights/5/state''), (''method'', JStr ''PUT'')]"

definition action_new :: jsval where
  "action_new = JObj [(''address'', JStr ''/lights/7/state''), (''method'', JStr ''PUT'')]"

definition rule0 :: rule where
  "rule0 = \<lparr>conditions = Some [condition_on_eq, condition_on_dx],
            actions = Some [action_old, action_new]\<rparr>"

text \<open>
  The two collections of the fetch: lights 5 and 7 in both, and a modern light resource
  without a back-reference.
\<close>

definition legacy_lamps :: "(string \<times> v1_light) list" where
  "legacy_lamps = [(''5'', \<lparr>light_name = ''Lamp''\<rparr>), (''7'', \<lparr>light_name = ''Lamp2''\<rparr>)]"

definition modern_lamps :: "v2_light list" where
  "modern_lamps =
     [\<lparr>light_id = ''guidA'', id_v1 = Some ''/lights/5''\<rparr>,
      \<lparr>light_id = ''guidB'', id_v1 = Some ''/lights/7''\<rparr>,
      \<lparr>light_id = ''guidZ'', id_v1 = None\<rparr>]"

text \<open>Three groups: with light 5 only, without it, and with lights 5 and 7.\<close>

definition groups0 :: "(string \<times> group) list" where
  "groups0 =
     [(''1'', \<lparr>group_lights = Some [''5'', ''9'']\<rparr>),
      (''2'', \<lparr>group_lights = Some [''3'']\<rparr>),
      (''3'', \<lparr>group_lights = Some [''5'', ''7'']\<rparr>)]"

text \<open>
  Scenes: \<open>a\<close> lists light 5, the fetch of \<open>b\<close> fails, \<open>c\<close> has a state for light 5, and
  every other scene is about light 3 only.
\<close>

definition scene_a :: scene where
  "scene_a = \<lparr>scene_lights = Some [''5''], lightstates = None\<rparr>"

definition scene_c :: scene where
  "scene_c = \<lparr>scene_lights = None, lightstates = Some [(''5'', [(''on'', JBool True)])]\<rparr>"

definition scene_d :: scene where
  "scene_d = \<lparr>scene_lights = Some [''3''], lightstates = Some [(''3'', [(''on'', JBool False)])]\<rparr>"

definition getScene0 :: "string \<Rightarrow> error + scene" where
  "getScene0 sceneId =
     (if sceneId = ''a'' then Inr scene_a
      else if sceneId = ''b'' then Inl RequestFailed
      else if sceneId = ''c'' then Inr scene_c
      else Inr scene_d)"

text \<open>A behavior instance whose configuration targets the light with GUID \<open>guidA\<close>.\<close>

definition instance0 :: behavior_instance where
  "instance0 =
     \<lparr>instance_id = ''b1'',
      configuration = JObj [(''targets'', JArr [light_ref (Some ''guidA'')])]\<rparr>"

section \<open>Properties of the Reference Scanner\<close>

lemma is_light_ref_light_ref: "is_light_ref (light_ref r) r"
  by (simp add: is_light_ref_def light_ref_def)

lemma some_light_ref_simps [simp]:
  "some_light_ref [] r = False"
  "some_light_ref (x # xs) r = (is_light_ref x r \<or> some_light_ref xs r)"
  "some_light_ref (xs @ ys) r = (some_light_ref xs r \<or> some_light_ref ys r)"
  by (simp_all add: some_light_ref_def)

lemma scan_and_augment_light_ref: "scan_and_augment old new (light_ref r) = light_ref r"
  by (cases r) (simp_all add: light_ref_def)

lemma scan_and_augment_JStr: "scan_and_augment old new v = JStr s \<longleftrightarrow> v = JStr s"
  by (cases v) (simp_all add: Let_def)

lemma scan_and_augment_JUndef: "scan_and_augment old new v = JUndef \<longleftrightarrow> v = JUndef"
  by (cases v) (simp_all add: Let_def)

lemma scan_and_augment_rid_val: "scan_and_augment old new v = rid_val r \<longleftrightarrow> v = rid_val r"
  by (cases r) (simp_all add: scan_and_augment_JStr scan_and_augment_JUndef)

lemma scan_and_augment_primitive: "\<not> typeof_object v \<Longrightarrow> scan_and_augment old new v = v"
  by (cases v) simp_all

lemma get_prop_scan_and_augment:
  "get_prop (scan_and_augment old new (JObj ps)) k = scan_and_augment old new (get_prop (JObj ps) k)"
  by (induction ps) auto

text \<open>Scanning a value does not change whether it is a reference to a given light.\<close>

lemma is_light_ref_scan_and_augment:
  "is_light_ref (scan_and_augment old new v) r = is_light_ref v r"
proof (cases v)
  case (JObj ps)
  show ?thesis
    unfolding JObj is_light_ref_def get_prop_scan_and_augment
    by (simp add: scan_and_augment_JStr scan_and_augment_rid_val)
qed (simp_all add: is_light_ref_def Let_def)

lemma some_light_ref_update:
  "i < length arr \<Longrightarrow> is_light_ref v r = is_light_ref (arr ! i) r \<Longrightarrow>
   some_light_ref (arr[i := v]) r = some_light_ref arr r"
  by (auto simp: some_light_ref_def list_ex_iff set_conv_nth nth_list_update)

lemma some_light_ref_map_scan:
  "some_light_ref (map (\<lambda>e. if is_light_ref e old then e else scan_and_augment old new e) xs) r
     = some_light_ref xs r"
  by (induction xs) (simp_all add: is_light_ref_scan_and_augment)

text \<open>
  The loops compute the structural recursion.  For the array loop the statement is about
  any state it can be in: the elements before index \<open>i\<close> are kept, those from \<open>i\<close> on are
  scanned, and the new reference is pushed if a reference to the old light is still ahead
  and the array as it stands holds none to the new light.
\<close>

lemma scan_refinement:
  "addLightReference obj old new =
     (scan_and_augment old new obj, scan_and_augment old new obj \<noteq> obj)"
  "array_loop arr i m old new =
     (take i arr
        @ map (\<lambda>e. if is_light_ref e old then e else scan_and_augment old new e) (drop i arr)
        @ (if some_light_ref (drop i arr) old \<and> \<not> some_light_ref arr new
           then [light_ref new] else []),
      m \<or> map (\<lambda>e. if is_light_ref e old then e else scan_and_augment old new e) (drop i arr)
            \<noteq> drop i arr
        \<or> (some_light_ref (drop i arr) old \<and> \<not> some_light_ref arr new))"
  "object_loop ps m old new =
     (map (\<lambda>p. (fst p, scan_and_augment old new (snd p))) ps,
      m \<or> map (\<lambda>p. (fst p, scan_and_augment old new (snd p))) ps \<noteq> ps)"
proof (induction obj old new and arr i m old new and ps m old new
    rule: addLightReference_array_loop_object_loop.induct)
  case (1 obj old new)
  show ?case
  proof (cases obj)
    case (JArr xs)
    with 1(1) [OF JArr] show ?thesis
      by (auto simp: addLightReference.simps Let_def)
  next
    case (JObj ps)
    with 1(2) [OF JObj] show ?thesis
      by (simp add: addLightReference.simps)
  qed (simp_all add: addLightReference.simps)
next
  case (2 arr i m old new)
  show ?case
  proof (cases "i < length arr")
    case False
    then show ?thesis by (simp add: array_loop.simps [of arr i])
  next
    case lt: True
    have dr: "drop i arr = arr ! i # drop (Suc i) arr"
      using lt by (simp add: Cons_nth_drop_Suc)
    have tk: "take (Suc i) arr = take i arr @ [arr ! i]"
      using lt by (simp add: take_Suc_conv_app_nth)
    show ?thesis
    proof (cases "is_light_ref (arr ! i) old")
      case ref: True
      show ?thesis
      proof (cases "some_light_ref arr new")
        case True
        with 2(2) [OF lt refl ref] lt ref show ?thesis
          by (simp add: array_loop.simps [of arr i] dr tk)
      next
        case False
        with 2(1) [OF lt refl ref] lt ref show ?thesis
          by (simp add: array_loop.simps [of arr i] dr tk is_light_ref_light_ref
              scan_and_augment_light_ref)
      qed
    next
      case noref: False
      show ?thesis
      proof (cases "typeof_object (arr ! i)")
        case obj: True
        have upd: "some_light_ref (arr[i := scan_and_augment old new (arr ! i)]) new
            = some_light_ref arr new"
          using lt by (simp add: some_light_ref_update is_light_ref_scan_and_augment)
        have tku: "take (Suc i) (arr[i := v]) = take i arr @ [v]" for v
          using lt by (simp add: take_Suc_conv_app_nth)
        from 2(3) [OF lt refl noref obj] have call:
          "addLightReference (arr ! i) old new =
             (scan_and_augment old new (arr ! i), scan_and_augment old new (arr ! i) \<noteq> arr ! i)" .
        from 2(4) [OF lt refl noref obj call [symmetric]] lt noref obj upd call show ?thesis
          by (auto simp: array_loop.simps [of arr i] dr tku Let_def)
      next
        case prim: False
        with 2(5) [OF lt refl noref prim] lt noref show ?thesis
          by (simp add: array_loop.simps [of arr i] dr tk scan_and_augment_primitive)
      qed
    qed
  qed
next
  case (3 m old new)
  show ?case by simp
next
  case (4 key "value" rest m old new)
  show ?case
  proof (cases "typeof_object value")
    case True
    from 4(1) [OF True] have call:
      "addLightReference value old new =
         (scan_and_augment old new value, scan_and_augment old new value \<noteq> value)" .
    from 4(2) [OF True call [symmetric]] True call show ?thesis
      by auto
  next
    case False
    with 4(3) [OF False] show ?thesis
      by (simp add: scan_and_augment_primitive)
  qed
qed

lemma scan_and_augment_idem:
  "scan_and_augment old new (scan_and_augment old new v) = scan_and_augment old new v"
proof (induction old new v rule: scan_and_augment.induct)
  case (1 old new xs)
  let ?g = "\<lambda>e. if is_light_ref e old then e else scan_and_augment old new e"
  have again: "map ?g (map ?g xs) = map ?g xs"
    using 1 by (auto simp: is_light_ref_scan_and_augment)
  have ref: "?g (light_ref new) = light_ref new"
    by (simp add: scan_and_augment_light_ref)
  show ?case
    using again ref
    by (simp add: Let_def some_light_ref_map_scan is_light_ref_light_ref del: map_map)
next
  case (2 old new ps)
  then show ?case by auto
qed simp_all

text \<open>
  The value at a path that the scan reaches is scanned; the value at a path that it does
  not reach is left as it is.  The tree changes if and only if the scan reaches a sequence
  that holds a reference to the old light and none to the new one.
\<close>

lemma children_scan_and_augment:
  "i < length (children v) \<Longrightarrow>
   i < length (children (scan_and_augment old new v)) \<and>
   children (scan_and_augment old new v) ! i
     = (if is_array v \<and> is_light_ref (children v ! i) old then children v ! i
        else scan_and_augment old new (children v ! i))"
  by (cases v) (auto simp: Let_def nth_append)

lemma subvalue_reached:
  "reached old v path \<Longrightarrow> subvalue v path = Some w \<Longrightarrow>
   subvalue (scan_and_augment old new v) path = Some (scan_and_augment old new w)"
proof (induction path arbitrary: v)
  case Nil
  then show ?case by simp
next
  case (Cons i path)
  from Cons.prems have i: "i < length (children v)"
    and no: "\<not> (is_array v \<and> is_light_ref (children v ! i) old)"
    and r: "reached old (children v ! i) path"
    and s: "subvalue (children v ! i) path = Some w"
    by (simp_all split: if_splits)
  from children_scan_and_augment [OF i, of old new] no Cons.IH [OF r s] show ?case
    by simp
qed

lemma subvalue_not_reached:
  "\<not> reached old v path \<Longrightarrow> subvalue v path = Some w \<Longrightarrow>
   subvalue (scan_and_augment old new v) path = Some w"
proof (induction path arbitrary: v)
  case Nil
  then show ?case by simp
next
  case (Cons i path)
  from Cons.prems have i: "i < length (children v)"
    and s: "subvalue (children v ! i) path = Some w"
    by (simp_all split: if_splits)
  show ?case
  proof (cases "is_array v \<and> is_light_ref (children v ! i) old")
    case True
    with children_scan_and_augment [OF i, of old new] s show ?thesis by simp
  next
    case False
    with Cons.prems i have "\<not> reached old (children v ! i) path" by simp
    from Cons.IH [OF this s] children_scan_and_augment [OF i, of old new] False show ?thesis
      by simp
  qed
qed

lemma map_changed:
  "map f xs \<noteq> xs \<Longrightarrow> \<exists>i<length xs. f (xs ! i) \<noteq> xs ! i"
  by (metis map_idI in_set_conv_nth)

lemma changed_then_appended:
  "scan_and_augment old new v \<noteq> v \<Longrightarrow>
   \<exists>path xs. reached old v path \<and> subvalue v path = Some (JArr xs) \<and>
             some_light_ref xs old \<and> \<not> some_light_ref xs new"
proof (induction old new v rule: scan_and_augment.induct)
  case (1 old new xs)
  show ?case
  proof (cases "some_light_ref xs old \<and> \<not> some_light_ref xs new")
    case True
    then have "reached old (JArr xs) [] \<and> subvalue (JArr xs) [] = Some (JArr xs) \<and>
        some_light_ref xs old \<and> \<not> some_light_ref xs new"
      by simp
    then show ?thesis by blast
  next
    case False
    with "1.prems" have
      "map (\<lambda>e. if is_light_ref e old then e else scan_and_augment old new e) xs \<noteq> xs"
      by (auto simp: Let_def)
    from map_changed [OF this] obtain i where i: "i < length xs"
      "\<not> is_light_ref (xs ! i) old" "scan_and_augment old new (xs ! i) \<noteq> xs ! i"
      by (auto split: if_splits)
    from "1.IH" [OF _ i(2,3)] i(1) obtain path ys where inner:
      "reached old (xs ! i) path" "subvalue (xs ! i) path = Some (JArr ys)"
      "some_light_ref ys old" "\<not> some_light_ref ys new"
      by auto
    with i have "reached old (JArr xs) (i # path) \<and>
        subvalue (JArr xs) (i # path) = Some (JArr ys) \<and>
        some_light_ref ys old \<and> \<not> some_light_ref ys new"
      by simp
    then show ?thesis by blast
  qed
next
  case (2 old new ps)
  then have "map (\<lambda>p. (fst p, scan_and_augment old new (snd p))) ps \<noteq> ps"
    by simp
  from map_changed [OF this] obtain j where j: "j < length ps"
    "scan_and_augment old new (snd (ps ! j)) \<noteq> snd (ps ! j)"
    by (auto simp: prod_eq_iff)
  from "2.IH" [OF _ j(2)] j(1) obtain path ys where inner:
    "reached old (snd (ps ! j)) path" "subvalue (snd (ps ! j)) path = Some (JArr ys)"
    "some_light_ref ys old" "\<not> some_light_ref ys new"
    by auto
  with j have "reached old (JObj ps) (j # path) \<and>
      subvalue (JObj ps) (j # path) = Some (JArr ys) \<and>
      some_light_ref ys old \<and> \<not> some_light_ref ys new"
    by simp
  then show ?case by blast
qed simp_all

lemma appended_then_changed:
  assumes "reached old v path" "subvalue v path = Some (JArr xs)"
    "some_light_ref xs old" "\<not> some_light_ref xs new"
  shows "scan_and_augment old new v \<noteq> v"
proof
  assume same: "scan_and_augment old new v = v"
  from subvalue_reached [OF assms(1,2), of new]
  have "Some (scan_and_augment old new (JArr xs)) = Some (JArr xs)"
    unfolding same assms(2) by (rule sym)
  then have "scan_and_augment old new (JArr xs) = JArr xs"
    by (simp only: option.inject)
  with assms(3,4) show False
    by (simp add: Let_def)
qed

text \<open>
  C1 (Reference Scanner contract), as the code has it.  For every tree and every pair of
  identifiers:
  \<^item> every sequence of the tree that the scan reaches comes out with its elements in place
    (each scanned in turn, unless it is itself a reference to the old light) and with the
    new reference appended once at the end if the sequence held an element matching the old
    reference on \<open>rid\<close> and \<open>rtype\<close> and none matching the new reference; it gets no new
    element if it held no reference to the old light or already one to the new light;
  \<^item> everything that the scan does not reach, that is, everything inside a sequence element
    that itself matches the old reference, is left exactly as it was;
  \<^item> the flag returned is true if and only if some sequence had the new reference
    appended.
\<close>

theorem addLightReference_contract:
  "(\<forall>path xs. reached oldLightRid tree path \<and> subvalue tree path = Some (JArr xs) \<longrightarrow>
      subvalue (fst (addLightReference tree oldLightRid newLightRid)) path
        = Some (JArr
            (map (\<lambda>e. if is_light_ref e oldLightRid then e
                      else fst (addLightReference e oldLightRid newLightRid)) xs
             @ (if some_light_ref xs oldLightRid \<and> \<not> some_light_ref xs newLightRid
                then [light_ref newLightRid] else [])))) \<and>
   (\<forall>path w. \<not> reached oldLightRid tree path \<and> subvalue tree path = Some w \<longrightarrow>
      subvalue (fst (addLightReference tree oldLightRid newLightRid)) path = Some w) \<and>
   (snd (addLightReference tree oldLightRid newLightRid) \<longleftrightarrow>
      (\<exists>path xs. reached oldLightRid tree path \<and> subvalue tree path = Some (JArr xs) \<and>
         some_light_ref xs oldLightRid \<and> \<not> some_light_ref xs newLightRid))"
proof (intro conjI allI impI)
  fix path xs
  assume "reached oldLightRid tree path \<and> subvalue tree path = Some (JArr xs)"
  then have "subvalue (scan_and_augment oldLightRid newLightRid tree) path
      = Some (scan_and_augment oldLightRid newLightRid (JArr xs))"
    by (simp add: subvalue_reached)
  then show "subvalue (fst (addLightReference tree oldLightRid newLightRid)) path
        = Some (JArr
            (map (\<lambda>e. if is_light_ref e oldLightRid then e
                      else fst (addLightReference e oldLightRid newLightRid)) xs
             @ (if some_light_ref xs oldLightRid \<and> \<not> some_light_ref xs newLightRid
                then [light_ref newLightRid] else [])))"
    by (simp add: scan_refinement(1) Let_def)
next
  fix path w
  assume "\<not> reached oldLightRid tree path \<and> subvalue tree path = Some w"
  then show "subvalue (fst (addLightReference tree oldLightRid newLightRid)) path = Some w"
    by (simp add: scan_refinement(1) subvalue_not_reached)
next
  show "snd (addLightReference tree oldLightRid newLightRid) \<longleftrightarrow>
      (\<exists>path xs. reached oldLightRid tree path \<and> subvalue tree path = Some (JArr xs) \<and>
         some_light_ref xs oldLightRid \<and> \<not> some_light_ref xs newLightRid)"
    using changed_then_appended [of oldLightRid newLightRid tree]
      appended_then_changed [of oldLightRid tree _ _ newLightRid]
    by (auto simp: scan_refinement(1))
qed

text \<open>
  The contract on a configuration in which the old reference stands in three sibling
  sequences, one of them with another light beside it and one below a further map: each of
  the three gets the new reference once, the other entries stay as they are, a sequence that
  only holds the GUID as a string is not changed, and the flag is true.
\<close>

theorem addLightReference_contract_three_sequences:
  "addLightReference three_sequences (Some ''guidA'') (Some ''guidC'')
     = (JObj [(''targets'', JArr [light_ref (Some ''guidA''), light_ref (Some ''guidB''),
                                 light_ref (Some ''guidC'')]),
              (''where'', JArr [JObj [(''group'', JArr [light_ref (Some ''guidA''),
                                                       light_ref (Some ''guidC'')])]]),
              (''others'', JArr [JStr ''x'', light_ref (Some ''guidA''),
                                light_ref (Some ''guidC'')]),
              (''names'', JArr [JStr ''guidA''])],
        True) \<and>
   reached (Some ''guidA'') three_sequences [1, 0, 0] \<and>
   subvalue three_sequences [1, 0, 0] = Some (JArr [light_ref (Some ''guidA'')]) \<and>
   subvalue (fst (addLightReference three_sequences (Some ''guidA'') (Some ''guidC''))) [1, 0, 0]
     = Some (JArr [light_ref (Some ''guidA''), light_ref (Some ''guidC'')])"
proof -
  have run: "addLightReference three_sequences (Some ''guidA'') (Some ''guidC'')
     = (JObj [(''targets'', JArr [light_ref (Some ''guidA''), light_ref (Some ''guidB''),
                                 light_ref (Some ''guidC'')]),
              (''where'', JArr [JObj [(''group'', JArr [light_ref (Some ''guidA''),
                                                       light_ref (Some ''guidC'')])]]),
              (''others'', JArr [JStr ''x'', light_ref (Some ''guidA''),
                                light_ref (Some ''guidC'')]),
              (''names'', JArr [JStr ''guidA''])],
        True)"
    by code_simp
  have at: "reached (Some ''guidA'') three_sequences [1, 0, 0] \<and>
      subvalue three_sequences [1, 0, 0] = Some (JArr [light_ref (Some ''guidA'')])"
    by (simp add: three_sequences_def is_light_ref_def)
  from addLightReference_contract [THEN conjunct1, rule_format, OF at, of "Some ''guidC''"]
  have sub: "subvalue (fst (addLightReference three_sequences (Some ''guidA'') (Some ''guidC'')))
      [1, 0, 0] = Some (JArr [light_ref (Some ''guidA''), light_ref (Some ''guidC'')])"
    by (simp add: is_light_ref_light_ref is_light_ref_def light_ref_def)
  from run at sub show ?thesis by blast
qed

text \<open>
  C1 as stated asks that every sequence of the tree that holds an element matching the old
  reference gets the new one.  In the tree below, the only element of the outer sequence
  matches the old reference and has a third property, \<open>members\<close> (path 0, 2), a sequence
  that holds a reference to the old light and none to the new one.  The scan adds the new
  reference beside the matching element and does not look inside it: \<open>members\<close> is the
  same after the call.
\<close>

theorem addLightReference_not_inside_matched_element:
  "subvalue nested_in_reference [0, 2] = Some (JArr [light_ref (Some ''guidA'')]) \<and>
   some_light_ref [light_ref (Some ''guidA'')] (Some ''guidA'') \<and>
   \<not> some_light_ref [light_ref (Some ''guidA'')] (Some ''guidC'') \<and>
   subvalue (fst (addLightReference nested_in_reference (Some ''guidA'') (Some ''guidC''))) [0, 2]
     = Some (JArr [light_ref (Some ''guidA'')]) \<and>
   addLightReference nested_in_reference (Some ''guidA'') (Some ''guidC'')
     = (JArr [JObj [(''rid'', JStr ''guidA''), (''rtype'', JStr ''light''),
                    (''members'', JArr [light_ref (Some ''guidA'')])],
              light_ref (Some ''guidC'')],
        True)"
  by code_simp

text \<open>
  C3 (Reference Scanner idempotence).  Running the scanner a second time on the tree the
  first run left, with the same pair of identifiers, returns \<open>false\<close> and leaves that tree
  as it is.  This holds for every tree and every pair, distinct or not.
\<close>

theorem addLightReference_idempotent:
  "addLightReference (fst (addLightReference tree oldLightRid newLightRid)) oldLightRid newLightRid
   = (fst (addLightReference tree oldLightRid newLightRid), False)"
  by (simp add: scan_refinement(1) scan_and_augment_idem)


section \<open>Properties of the Rule Migrator\<close>

lemma startsWith_nonempty: "startsWith a (light_address_prefix old) \<Longrightarrow> a \<noteq> []"
  by (auto simp: startsWith_def light_address_prefix_def)

text \<open>
  The loop over a list adds exactly the items that \<open>added_items\<close> describes, in the order
  of the list, whatever was accumulated before; the test is the one against \<open>original\<close>.
\<close>

lemma add_new_items_result:
  "add_new_items (light_address_prefix old) (light_address_prefix new) original items (modified, needs)
     = Inr (modified', needs') \<Longrightarrow>
   modified' = modified @ added_items old new original items \<and>
   needs' = (needs \<or> added_items old new original items \<noteq> [])"
proof (induction items arbitrary: modified needs)
  case Nil
  then show ?case by (simp add: added_items_def)
next
  case (Cons item rest)
  show ?case
  proof (cases "wanted_address old new item")
    case None
    with Cons.prems have "add_new_items (light_address_prefix old) (light_address_prefix new) original rest (modified, needs)
     = Inr (modified', needs')"
      by (auto simp: wanted_address_def split: if_splits jsval.splits)
    from Cons.IH [OF this] None show ?thesis
      by (simp add: added_items_def)
  next
    case (Some a)
    then obtain adr where adr: "get_prop item ''address'' = JStr adr"
      "startsWith adr (light_address_prefix old)"
      "a = light_address_prefix new @ drop (length (light_address_prefix old)) adr"
      by (auto simp: wanted_address_def split: jsval.splits if_splits)
    then have ne: "adr \<noteq> []" "item \<noteq> JNull" "item \<noteq> JUndef"
      by (auto dest: startsWith_nonempty)
    show ?thesis
    proof (cases "itemAddressExists original a")
      case True
      with Cons.prems adr ne have "add_new_items (light_address_prefix old) (light_address_prefix new) original rest (modified, needs)
     = Inr (modified', needs')"
        by (simp add: Let_def)
      from Cons.IH [OF this] Some True show ?thesis
        by (simp add: added_items_def)
    next
      case False
      with Cons.prems adr ne have "add_new_items (light_address_prefix old) (light_address_prefix new) original rest (modified @ [with_address item a], True)
     = Inr (modified', needs')"
        by (simp add: Let_def)
      from Cons.IH [OF this] Some False show ?thesis
        by (simp add: added_items_def)
    qed
  qed
qed

lemma check_items_result:
  "check_items (light_address_prefix old) (light_address_prefix new) original (modified, needs)
     = Inr (modified', needs') \<Longrightarrow>
   modified' = modified @ added_items old new original (rule_items original) \<and>
   needs' = (needs \<or> added_items old new original (rule_items original) \<noteq> [])"
  by (cases original)
    (auto simp: check_items_def rule_items_def added_items_def dest: add_new_items_result)

lemma copied_items:
  "(case original of Some cs \<Rightarrow> deep_copy_items cs | None \<Rightarrow> []) = deep_copy_items (rule_items original)"
  by (simp add: rule_items_def deep_copy_items_def split: option.splits)

lemma modify_rule_result:
  assumes "modify_rule r old new = Inr (modifiedConditions, modifiedActions, needsUpdate)"
  shows "modifiedConditions = deep_copy_items (rule_items (conditions r))
           @ added_items old new (conditions r) (rule_items (conditions r))"
    and "modifiedActions = deep_copy_items (rule_items (actions r))
           @ added_items old new (actions r) (rule_items (actions r))"
    and "needsUpdate \<longleftrightarrow> added_items old new (conditions r) (rule_items (conditions r)) \<noteq> [] \<or>
           added_items old new (actions r) (rule_items (actions r)) \<noteq> []"
  using assms
  by (auto simp: modify_rule_def Let_def copied_items split: sum.splits prod.splits
      dest!: check_items_result)

lemma map_of_set_prop:
  "map_of (set_prop ps k v) k' = (if k' = k then Some v else map_of ps k')"
  by (induction ps) auto

lemma get_prop_with_address:
  "get_prop (with_address item a) ''address'' = JStr a"
  by (cases item) (simp_all add: with_address_def map_of_set_prop)

lemma get_prop_with_address_other:
  "get_prop item ''address'' = JStr adr \<Longrightarrow> k \<noteq> ''address'' \<Longrightarrow>
   get_prop (with_address item a) k = get_prop item k"
  by (cases item) (simp_all add: with_address_def map_of_set_prop)

lemma has_address_with_address: "has_address a (with_address item a') \<longleftrightarrow> a' = a"
  by (simp add: has_address_def get_prop_with_address)

lemma wanted_address_prefixed:
  "get_prop c ''address'' = JStr (light_address_prefix old @ suffix) \<Longrightarrow>
   wanted_address old new c = Some (light_address_prefix new @ suffix)"
  by (simp add: wanted_address_def startsWith_def)

lemma wanted_address_SomeD:
  "wanted_address old new c = Some a \<Longrightarrow>
   \<exists>suffix. get_prop c ''address'' = JStr (light_address_prefix old @ suffix) \<and>
            a = light_address_prefix new @ suffix"
  by (auto simp: wanted_address_def startsWith_def split: jsval.splits if_splits)
     (metis append_take_drop_id)

lemma wanted_address_NoneD:
  "wanted_address old new c = None \<Longrightarrow> \<not> has_address (light_address_prefix old @ suffix) c"
  by (auto simp: has_address_def wanted_address_def startsWith_def)

lemma added_items_Cons:
  "added_items old new original (item # items) =
     (case wanted_address old new item of
        Some a \<Rightarrow> if itemAddressExists original a then [] else [with_address item a]
      | None \<Rightarrow> []) @ added_items old new original items"
  by (simp add: added_items_def)

lemma added_items_iff:
  assumes "c \<in> set items" "wanted_address old new c = Some a"
  shows "with_address c a \<in> set (added_items old new original items)
           \<longleftrightarrow> \<not> itemAddressExists original a"
proof
  assume "with_address c a \<in> set (added_items old new original items)"
  then have "\<exists>c' a'. wanted_address old new c' = Some a' \<and>
      \<not> itemAddressExists original a' \<and> with_address c a = with_address c' a'"
    by (auto simp: added_items_def split: option.splits if_splits) (metis)
  then obtain c' a' where c': "wanted_address old new c' = Some a'"
      "\<not> itemAddressExists original a'" "with_address c a = with_address c' a'"
    by blast
  from c'(3) have "get_prop (with_address c a) ''address'' = get_prop (with_address c' a') ''address''"
    by simp
  then have "a = a'" by (simp add: get_prop_with_address)
  with c'(2) show "\<not> itemAddressExists original a" by simp
next
  assume "\<not> itemAddressExists original a"
  with assms show "with_address c a \<in> set (added_items old new original items)"
    by (force simp: added_items_def)
qed

lemma added_items_Nil:
  "(\<forall>c\<in>set items. wanted_address old new c = None) \<Longrightarrow> added_items old new original items = []"
  by (induction items) (simp_all add: added_items_def)

lemma added_items_count:
  "length (filter (has_address (light_address_prefix new @ suffix)) (added_items old new original items))
     = (if itemAddressExists original (light_address_prefix new @ suffix) then 0
        else length (filter (has_address (light_address_prefix old @ suffix)) items))"
proof (induction items)
  case Nil
  show ?case by (simp add: added_items_def)
next
  case (Cons item items)
  show ?case
  proof (cases "wanted_address old new item")
    case None
    with Cons wanted_address_NoneD [OF None, of suffix] show ?thesis
      by (simp add: added_items_Cons)
  next
    case (Some a)
    from wanted_address_SomeD [OF Some] obtain s where
      s: "get_prop item ''address'' = JStr (light_address_prefix old @ s)"
         "a = light_address_prefix new @ s"
      by blast
    from s(1) have "has_address (light_address_prefix old @ suffix) item \<longleftrightarrow> s = suffix"
      by (simp add: has_address_def)
    with Cons Some s(2) show ?thesis
      by (auto simp: added_items_Cons has_address_with_address)
  qed
qed

lemma added_items_address:
  "i \<in> set (added_items old new original items) \<Longrightarrow>
   \<exists>suffix. has_address (light_address_prefix new @ suffix) i \<and>
            \<not> itemAddressExists original (light_address_prefix new @ suffix)"
proof (induction items)
  case Nil
  then show ?case by (simp add: added_items_def)
next
  case (Cons item items)
  show ?case
  proof (cases "i \<in> set (added_items old new original items)")
    case True
    then show ?thesis by (rule Cons.IH)
  next
    case False
    show ?thesis
    proof (cases "wanted_address old new item")
      case None
      with Cons.prems False show ?thesis by (simp add: added_items_Cons)
    next
      case (Some a)
      with Cons.prems False have "\<not> itemAddressExists original a" "i = with_address item a"
        by (auto simp: added_items_Cons split: if_splits)
      with wanted_address_SomeD [OF Some] show ?thesis
        by (auto simp: has_address_with_address)
    qed
  qed
qed

lemma length_deep_copy_items [simp]: "length (deep_copy_items xs) = length xs"
  by (simp add: deep_copy_items_def)

lemma deep_copy_json: "is_json v \<Longrightarrow> deep_copy v = v"
proof (induction v rule: deep_copy.induct)
  case (1 xs)
  then have "map (\<lambda>x. if x = JUndef then JNull else deep_copy x) xs = map (\<lambda>x. x) xs"
    by (intro map_cong) (auto simp: list_all_iff)
  then show ?case by simp
next
  case (2 ps)
  then have "concat (map (\<lambda>p. if snd p = JUndef then [] else [(fst p, deep_copy (snd p))]) ps) = ps"
    by (induction ps) (auto)
  then show ?case by simp
qed simp_all

lemma deep_copy_items_json: "list_all is_json xs \<Longrightarrow> deep_copy_items xs = xs"
  by (induction xs) (auto simp: deep_copy_items_def deep_copy_json)

text \<open>On lists of items that can be read, the loop ends without an error.\<close>

lemma add_new_items_total:
  "list_all item_address_ok items \<Longrightarrow> \<exists>res. add_new_items oldP newP original items st = Inr res"
proof (induction items arbitrary: st)
  case Nil
  then show ?case by simp
next
  case (Cons item rest)
  obtain modified needs where st: "st = (modified, needs)" by (cases st)
  from Cons.prems have ok: "item_address_ok item" and rest: "list_all item_address_ok rest"
    by simp_all
  from ok Cons.IH [OF rest] show ?case
    unfolding st by (auto simp: item_address_ok_def Let_def split: jsval.splits)
qed

lemma modify_rule_total:
  assumes "list_all item_address_ok (rule_items (conditions r))"
    and "list_all item_address_ok (rule_items (actions r))"
  shows "\<exists>res. modify_rule r old new = Inr res"
proof -
  have ch: "\<exists>res. check_items oldP newP original st = Inr res"
    if "list_all item_address_ok (rule_items original)" for oldP newP original st
    using that add_new_items_total [of "rule_items original" oldP newP original st]
    by (cases original) (simp_all add: check_items_def rule_items_def)
  from ch [OF assms(1)] obtain mc n where
    "check_items (light_address_prefix old) (light_address_prefix new) (conditions r)
       (case conditions r of Some cs \<Rightarrow> deep_copy_items cs | None \<Rightarrow> [], False) = Inr (mc, n)"
    by (metis surj_pair)
  moreover from ch [OF assms(2)] obtain ma n' where
    "check_items (light_address_prefix old) (light_address_prefix new) (actions r)
       (case actions r of Some as \<Rightarrow> deep_copy_items as | None \<Rightarrow> [], n) = Inr (ma, n')"
    by (metis surj_pair)
  ultimately show ?thesis
    by (simp add: modify_rule_def Let_def)
qed

text \<open>
  What a turn of the loop that ends without an error has done: the test for an item with
  the old prefix is the one against the rule's own list, the item added differs from it in
  the address only, and a rule with no such item needs no update.
\<close>

lemma modify_rule_dedup:
  assumes "modify_rule r old new = Inr (modifiedConditions, modifiedActions, needsUpdate)"
  shows
    "(\<forall>c\<in>set (rule_items (conditions r)). \<forall>suffix.
        get_prop c ''address'' = JStr (light_address_prefix old @ suffix) \<longrightarrow>
          (with_address c (light_address_prefix new @ suffix)
             \<in> set (drop (length (rule_items (conditions r))) modifiedConditions)
           \<longleftrightarrow> \<not> itemAddressExists (conditions r) (light_address_prefix new @ suffix)) \<and>
          get_prop (with_address c (light_address_prefix new @ suffix)) ''address''
            = JStr (light_address_prefix new @ suffix) \<and>
          (\<forall>k. k \<noteq> ''address'' \<longrightarrow>
             get_prop (with_address c (light_address_prefix new @ suffix)) k = get_prop c k)) \<and>
     (\<forall>c\<in>set (rule_items (actions r)). \<forall>suffix.
        get_prop c ''address'' = JStr (light_address_prefix old @ suffix) \<longrightarrow>
          (with_address c (light_address_prefix new @ suffix)
             \<in> set (drop (length (rule_items (actions r))) modifiedActions)
           \<longleftrightarrow> \<not> itemAddressExists (actions r) (light_address_prefix new @ suffix)) \<and>
          get_prop (with_address c (light_address_prefix new @ suffix)) ''address''
            = JStr (light_address_prefix new @ suffix) \<and>
          (\<forall>k. k \<noteq> ''address'' \<longrightarrow>
             get_prop (with_address c (light_address_prefix new @ suffix)) k = get_prop c k)) \<and>
     ((\<forall>c\<in>set (rule_items (conditions r) @ rule_items (actions r)). \<forall>suffix.
         get_prop c ''address'' \<noteq> JStr (light_address_prefix old @ suffix)) \<longrightarrow>
        \<not> needsUpdate \<and> rule_request ruleId r old new = Inr None)"
proof (intro conjI ballI allI impI)
  fix c suffix
  assume c: "c \<in> set (rule_items (conditions r))"
    "get_prop c ''address'' = JStr (light_address_prefix old @ suffix)"
  from added_items_iff [OF c(1) wanted_address_prefixed [OF c(2)]]
  show "with_address c (light_address_prefix new @ suffix)
             \<in> set (drop (length (rule_items (conditions r))) modifiedConditions)
           \<longleftrightarrow> \<not> itemAddressExists (conditions r) (light_address_prefix new @ suffix)"
    by (simp add: modify_rule_result(1) [OF assms])
  show "get_prop (with_address c (light_address_prefix new @ suffix)) ''address''
            = JStr (light_address_prefix new @ suffix)"
    by (rule get_prop_with_address)
  fix k :: string
  assume "k \<noteq> ''address''"
  with c(2) show "get_prop (with_address c (light_address_prefix new @ suffix)) k = get_prop c k"
    by (rule get_prop_with_address_other)
next
  fix c suffix
  assume c: "c \<in> set (rule_items (actions r))"
    "get_prop c ''address'' = JStr (light_address_prefix old @ suffix)"
  from added_items_iff [OF c(1) wanted_address_prefixed [OF c(2)]]
  show "with_address c (light_address_prefix new @ suffix)
             \<in> set (drop (length (rule_items (actions r))) modifiedActions)
           \<longleftrightarrow> \<not> itemAddressExists (actions r) (light_address_prefix new @ suffix)"
    by (simp add: modify_rule_result(2) [OF assms])
  show "get_prop (with_address c (light_address_prefix new @ suffix)) ''address''
            = JStr (light_address_prefix new @ suffix)"
    by (rule get_prop_with_address)
  fix k :: string
  assume "k \<noteq> ''address''"
  with c(2) show "get_prop (with_address c (light_address_prefix new @ suffix)) k = get_prop c k"
    by (rule get_prop_with_address_other)
next
  assume none: "\<forall>c\<in>set (rule_items (conditions r) @ rule_items (actions r)). \<forall>suffix.
         get_prop c ''address'' \<noteq> JStr (light_address_prefix old @ suffix)"
  have "wanted_address old new c = None"
    if "c \<in> set (rule_items (conditions r) @ rule_items (actions r))" for c
    using that none by (cases "wanted_address old new c") (auto dest: wanted_address_SomeD)
  then have "added_items old new (conditions r) (rule_items (conditions r)) = []"
    "added_items old new (actions r) (rule_items (actions r)) = []"
    by (auto intro!: added_items_Nil)
  with modify_rule_result(3) [OF assms] show no: "\<not> needsUpdate" by simp
  with assms show "rule_request ruleId r old new = Inr None"
    by (simp add: rule_request_def)
qed

text \<open>
  C2 (Rule Migrator dedup ordering).  For every rule whose conditions and actions can be
  read (each an object with an address that is a string or falsy, as the bridge delivers
  them), the loop turn ends without an error and gives modified conditions and actions
  such that: for every condition of the rule whose address is the prefix \<open>/lights/{old}/\<close>
  followed by a suffix, the item with the address \<open>/lights/{new}/\<close> plus that suffix is
  among the items appended to the modified conditions if and only if no item of the rule's
  own condition list has that address; the item appended has the new address and every
  other field as the condition has it.  The same holds for the actions.  The rule needs an
  update exactly when an item was appended; if no condition and no action has an address
  with the old prefix, it needs none and no request is sent for it.
\<close>

theorem rule_dedup_against_original:
  assumes "list_all item_address_ok (rule_items (conditions r))"
    and "list_all item_address_ok (rule_items (actions r))"
  shows
    "\<exists>modifiedConditions modifiedActions needsUpdate.
       modify_rule r old new = Inr (modifiedConditions, modifiedActions, needsUpdate) \<and>
       (\<forall>c\<in>set (rule_items (conditions r)). \<forall>suffix.
          get_prop c ''address'' = JStr (light_address_prefix old @ suffix) \<longrightarrow>
            (with_address c (light_address_prefix new @ suffix)
               \<in> set (drop (length (rule_items (conditions r))) modifiedConditions)
             \<longleftrightarrow> \<not> itemAddressExists (conditions r) (light_address_prefix new @ suffix)) \<and>
            get_prop (with_address c (light_address_prefix new @ suffix)) ''address''
              = JStr (light_address_prefix new @ suffix) \<and>
            (\<forall>k. k \<noteq> ''address'' \<longrightarrow>
               get_prop (with_address c (light_address_prefix new @ suffix)) k = get_prop c k)) \<and>
       (\<forall>c\<in>set (rule_items (actions r)). \<forall>suffix.
          get_prop c ''address'' = JStr (light_address_prefix old @ suffix) \<longrightarrow>
            (with_address c (light_address_prefix new @ suffix)
               \<in> set (drop (length (rule_items (actions r))) modifiedActions)
             \<longleftrightarrow> \<not> itemAddressExists (actions r) (light_address_prefix new @ suffix)) \<and>
            get_prop (with_address c (light_address_prefix new @ suffix)) ''address''
              = JStr (light_address_prefix new @ suffix) \<and>
            (\<forall>k. k \<noteq> ''address'' \<longrightarrow>
               get_prop (with_address c (light_address_prefix new @ suffix)) k = get_prop c k)) \<and>
       (needsUpdate \<longleftrightarrow>
          drop (length (rule_items (conditions r))) modifiedConditions \<noteq> [] \<or>
          drop (length (rule_items (actions r))) modifiedActions \<noteq> []) \<and>
       ((\<forall>c\<in>set (rule_items (conditions r) @ rule_items (actions r)). \<forall>suffix.
           get_prop c ''address'' \<noteq> JStr (light_address_prefix old @ suffix)) \<longrightarrow>
          \<not> needsUpdate \<and> rule_request ruleId r old new = Inr None)"
proof -
  from modify_rule_total [OF assms, of old new]
  obtain modifiedConditions modifiedActions needsUpdate
    where run: "modify_rule r old new = Inr (modifiedConditions, modifiedActions, needsUpdate)"
    by (metis surj_pair)
  have needs: "needsUpdate \<longleftrightarrow>
      drop (length (rule_items (conditions r))) modifiedConditions \<noteq> [] \<or>
      drop (length (rule_items (actions r))) modifiedActions \<noteq> []"
    by (simp add: modify_rule_result [OF run])
  note post = modify_rule_dedup [OF run, of ruleId]
  show ?thesis
    by (intro exI)
      (rule conjI [OF run conjI [OF post [THEN conjunct1]
        conjI [OF post [THEN conjunct2, THEN conjunct1]
          conjI [OF needs post [THEN conjunct2, THEN conjunct2]]]]])
qed

text \<open>
  On \<open>rule0\<close>, with old light 5 and new light 7: all items can be read; both conditions
  have the old prefix and the same suffix, no condition of the rule has the new address,
  and both are added, the second although the first has just put an item with that address
  into the modified list.  The action on light 5 is not added again, because the rule
  already has it for light 7.
\<close>

theorem rule_dedup_against_original_example:
  "list_all item_address_ok (rule_items (conditions rule0)) \<and>
   list_all item_address_ok (rule_items (actions rule0)) \<and>
   modify_rule rule0 ''5'' ''7'' =
     Inr ([condition_on_eq, condition_on_dx,
           with_address condition_on_eq ''/lights/7/state/on'',
           with_address condition_on_dx ''/lights/7/state/on''],
          [action_old, action_new], True) \<and>
   \<not> itemAddressExists (conditions rule0) ''/lights/7/state/on'' \<and>
   with_address condition_on_eq ''/lights/7/state/on''
     \<in> set (drop 2 [condition_on_eq, condition_on_dx,
           with_address condition_on_eq ''/lights/7/state/on'',
           with_address condition_on_dx ''/lights/7/state/on'']) \<and>
   itemAddressExists (actions rule0) ''/lights/7/state'' \<and>
   with_address action_old ''/lights/7/state'' \<notin> set (drop 2 [action_old, action_new])"
proof -
  have ok: "list_all item_address_ok (rule_items (conditions rule0))"
    "list_all item_address_ok (rule_items (actions rule0))"
    by (simp_all add: rule0_def rule_items_def item_address_ok_def condition_on_eq_def
        condition_on_dx_def action_old_def action_new_def)
  have run: "modify_rule rule0 ''5'' ''7'' =
     Inr ([condition_on_eq, condition_on_dx,
           with_address condition_on_eq ''/lights/7/state/on'',
           with_address condition_on_dx ''/lights/7/state/on''],
          [action_old, action_new], True)"
    by code_simp
  have c: "condition_on_eq \<in> set (rule_items (conditions rule0))"
    "get_prop condition_on_eq ''address'' = JStr (light_address_prefix ''5'' @ ''state/on'')"
    and a: "action_old \<in> set (rule_items (actions rule0))"
    "get_prop action_old ''address'' = JStr (light_address_prefix ''5'' @ ''state'')"
    by (simp_all add: rule0_def rule_items_def condition_on_eq_def action_old_def
        light_address_prefix_def)
  have pick: "P x y z"
    if "\<exists>a b c. modify_rule rule0 ''5'' ''7'' = Inr (a, b, c) \<and> P a b c"
      and "modify_rule rule0 ''5'' ''7'' = Inr (x, y, z)" for P x y z
    using that by auto
  note post = pick [OF rule_dedup_against_original [OF ok, of "''5''" "''7''" "''1''"] run]
  note res =
    post [THEN conjunct1, THEN bspec, OF c(1), THEN spec, THEN mp, OF c(2), THEN conjunct1]
    post [THEN conjunct2, THEN conjunct1, THEN bspec, OF a(1), THEN spec, THEN mp, OF a(2),
      THEN conjunct1]
  have len: "length (rule_items (conditions rule0)) = 2" "length (rule_items (actions rule0)) = 2"
    by (simp_all add: rule0_def rule_items_def)
  have pre: "light_address_prefix ''7'' @ ''state/on'' = ''/lights/7/state/on''"
    "light_address_prefix ''7'' @ ''state'' = ''/lights/7/state''"
    by (simp_all add: light_address_prefix_def)
  have inC: "with_address condition_on_eq ''/lights/7/state/on''
     \<in> set (drop 2 [condition_on_eq, condition_on_dx,
           with_address condition_on_eq ''/lights/7/state/on'',
           with_address condition_on_dx ''/lights/7/state/on''])"
    by simp
  have outA: "with_address action_old ''/lights/7/state'' \<notin> set (drop 2 [action_old, action_new])"
    by simp
  from res(1) inC have exC: "\<not> itemAddressExists (conditions rule0) ''/lights/7/state/on''"
    unfolding len pre by blast
  from res(2) outA have exA: "itemAddressExists (actions rule0) ''/lights/7/state''"
    unfolding len pre by blast
  from ok run exC inC exA outA show ?thesis by blast
qed

text \<open>
  C10 (Rule Migrator frame preservation).  When a request is sent for a rule whose
  conditions and actions are parsed JSON, the conditions array it carries, if it carries
  one, is the rule's own condition list followed by the added items, and likewise for the
  actions: every original item is there, unchanged and in its place.
\<close>

theorem rule_frame_preservation:
  assumes "rule_request ruleId r old new = Inr (Some req)"
    and "list_all is_json (rule_items (conditions r))"
    and "list_all is_json (rule_items (actions r))"
  shows "\<exists>payloadConditions payloadActions.
           req = PutRule ruleId payloadConditions payloadActions \<and>
           (\<forall>sent. payloadConditions = Some sent \<longrightarrow>
              (\<exists>added. sent = rule_items (conditions r) @ added)) \<and>
           (\<forall>sent. payloadActions = Some sent \<longrightarrow>
              (\<exists>added. sent = rule_items (actions r) @ added))"
proof -
  from assms(1) obtain modifiedConditions modifiedActions needsUpdate
    where m: "modify_rule r old new = Inr (modifiedConditions, modifiedActions, needsUpdate)"
    by (auto simp: rule_request_def split: sum.splits)
  from assms(1) m have req: "req = PutRule ruleId
      (if modifiedConditions \<noteq> [] then Some modifiedConditions else None)
      (if modifiedActions \<noteq> [] then Some modifiedActions else None)"
    by (auto simp: rule_request_def Let_def split: if_splits)
  from modify_rule_result(1,2) [OF m] assms(2,3)
  have "\<exists>added. modifiedConditions = rule_items (conditions r) @ added"
    "\<exists>added. modifiedActions = rule_items (actions r) @ added"
    by (simp_all add: deep_copy_items_json)
  with req show ?thesis by auto
qed

theorem rule_frame_preservation_example:
  "rule_request ''1'' rule0 ''5'' ''7'' =
     Inr (Some (PutRule ''1''
       (Some (rule_items (conditions rule0) @
              [with_address condition_on_eq ''/lights/7/state/on'',
               with_address condition_on_dx ''/lights/7/state/on'']))
       (Some (rule_items (actions rule0) @ [])))) \<and>
   list_all is_json (rule_items (conditions rule0)) \<and>
   list_all is_json (rule_items (actions rule0))"
proof -
  have run: "rule_request ''1'' rule0 ''5'' ''7'' =
     Inr (Some (PutRule ''1''
       (Some [condition_on_eq, condition_on_dx,
              with_address condition_on_eq ''/lights/7/state/on'',
              with_address condition_on_dx ''/lights/7/state/on''])
       (Some [action_old, action_new])))"
    by code_simp
  have json: "list_all is_json (rule_items (conditions rule0))"
    "list_all is_json (rule_items (actions rule0))"
    by (simp_all add: rule0_def rule_items_def condition_on_eq_def condition_on_dx_def
        action_old_def action_new_def)
  from rule_frame_preservation [OF run json] run json show ?thesis
    by (simp add: rule0_def rule_items_def)
qed


section \<open>Properties of the Identifier Reconciler\<close>

lemma endsWith_iff: "endsWith s suffix \<longleftrightarrow> (\<exists>pre. s = pre @ suffix)"
proof
  assume "endsWith s suffix"
  then have "s = take (length s - length suffix) s @ suffix"
    by (metis append_take_drop_id endsWith_def)
  then show "\<exists>pre. s = pre @ suffix" ..
next
  assume "\<exists>pre. s = pre @ suffix"
  then show "endsWith s suffix" by (auto simp: endsWith_def)
qed

lemma match_here_Some_iff:
  "match_here s = Some k \<longleftrightarrow> s = lights_path @ k \<and> k \<noteq> [] \<and> list_all is_digit k"
proof -
  have "s = lights_path @ drop (length lights_path) s" if "take (length lights_path) s = lights_path"
    using that by (metis append_take_drop_id)
  then show ?thesis
    by (auto simp: match_here_def startsWith_def)
qed

lemma not_digit_slash: "\<not> is_digit CHR ''/''"
  by (simp add: is_digit_def)

lemma trailing_digits:
  "list_all is_digit k \<Longrightarrow> takeWhile is_digit (rev (pre @ lights_path @ k)) = rev k"
proof -
  obtain q where q: "lights_path = q @ [CHR ''/'']"
    by (simp add: lights_path_def)
  assume "list_all is_digit k"
  then have "takeWhile is_digit (rev k @ CHR ''/'' # rev q @ rev pre) = rev k @ takeWhile is_digit (CHR ''/'' # rev q @ rev pre)"
    by (intro takeWhile_append2) (simp add: list_all_iff)
  then show ?thesis
    by (simp add: q not_digit_slash)
qed

lemma digits_suffix_unique:
  assumes "pre @ lights_path @ k = pre' @ lights_path @ k'"
    and "list_all is_digit k" "list_all is_digit k'"
  shows "k = k'"
proof -
  from assms(1) have "takeWhile is_digit (rev (pre @ lights_path @ k))
      = takeWhile is_digit (rev (pre' @ lights_path @ k'))"
    by simp
  with assms(2,3) have "rev k = rev k'"
    by (simp only: trailing_digits)
  then show ?thesis by simp
qed

lemma match_lights_id_SomeD:
  "match_lights_id s = Some k \<Longrightarrow>
   (\<exists>pre. s = pre @ lights_path @ k) \<and> k \<noteq> [] \<and> list_all is_digit k"
proof (induction s)
  case Nil
  then show ?case by simp
next
  case (Cons c cs)
  show ?case
  proof (cases "match_here (c # cs)")
    case None
    with Cons.prems have "match_lights_id cs = Some k" by simp
    from Cons.IH [OF this] show ?thesis
      by (metis append_Cons)
  next
    case (Some k')
    with Cons.prems have "k' = k" by simp
    with Some show ?thesis
      by (metis append_Nil match_here_Some_iff)
  qed
qed

lemma match_lights_id_here: "match_here s = Some k \<Longrightarrow> match_lights_id s = Some k"
  by (cases s) (simp_all add: match_here_def startsWith_def lights_path_def)

lemma match_lights_id_SomeI:
  "k \<noteq> [] \<Longrightarrow> list_all is_digit k \<Longrightarrow> match_lights_id (pre @ lights_path @ k) = Some k"
proof (induction pre)
  case Nil
  then have "match_here (lights_path @ k) = Some k"
    by (simp add: match_here_Some_iff)
  then show ?case by (simp add: match_lights_id_here)
next
  case (Cons c pre)
  show ?case
  proof (cases "match_here (c # pre @ lights_path @ k)")
    case None
    with Cons show ?thesis by simp
  next
    case (Some k')
    then have k': "c # pre @ lights_path @ k = lights_path @ k'" "list_all is_digit k'"
      by (simp_all add: match_here_Some_iff)
    from digits_suffix_unique [of "c # pre" k "[]" k'] k' Cons.prems have "k = k'"
      by simp
    with Some show ?thesis by simp
  qed
qed

text \<open>
  The pattern matches exactly the strings that end in \<open>/lights/\<close> and a non-empty run of
  digits, and group 1 is that run.
\<close>

lemma match_lights_id_Some_iff:
  "match_lights_id s = Some k \<longleftrightarrow>
   k \<noteq> [] \<and> list_all is_digit k \<and> endsWith s (lights_path @ k)"
  by (auto simp: endsWith_iff dest: match_lights_id_SomeD intro: match_lights_id_SomeI)

lemma v1_key_iff: "v1_key light = Some k \<longleftrightarrow> back_reference light k"
  by (cases "id_v1 light") (simp_all add: v1_key_def back_reference_def match_lights_id_Some_iff)

lemma build_id_map_Cons:
  "build_id_map (light # rest) m =
     build_id_map rest (case v1_key light of None \<Rightarrow> m | Some k \<Rightarrow> m(k \<mapsto> light_id light))"
proof -
  have "match_lights_id path = Some k \<Longrightarrow> k \<noteq> []" for path k
    by (simp add: match_lights_id_Some_iff)
  then show ?thesis
    by (auto simp: v1_key_def split: option.splits)
qed

lemma find_snoc:
  "find P (xs @ [x]) = (case find P xs of Some y \<Rightarrow> Some y | None \<Rightarrow> if P x then Some x else None)"
  by (induction xs) simp_all

lemma build_id_map_lookup:
  "build_id_map ls m k =
     (case find (\<lambda>light. back_reference light k) (rev ls) of
        Some light \<Rightarrow> Some (light_id light)
      | None \<Rightarrow> m k)"
proof (induction ls arbitrary: m)
  case Nil
  show ?case by simp
next
  case (Cons light rest)
  have here: "(case v1_key light of None \<Rightarrow> m | Some k' \<Rightarrow> m(k' \<mapsto> light_id light)) k
      = (if back_reference light k then Some (light_id light) else m k)"
    using v1_key_iff [of light k] by (cases "v1_key light") auto
  show ?case
    unfolding build_id_map_Cons Cons.IH here
    by (simp add: find_snoc split: option.splits)
qed

text \<open>
  C5 (Identifier Reconciler), as the code has it.  After the fetch, \<open>allV1Lights\<close> is the
  legacy collection as received, and for every numeric id the map has the GUID of the last
  modern light resource whose back-reference is a path ending in \<open>/lights/\<close> and that id;
  it has no entry for an id that no modern resource refers to in this way.  So the entries
  are exactly those of the modern resources with a matching back-reference, whether or not
  the id is a key of the legacy collection; a legacy light that no modern resource refers
  to, and a modern resource with no back-reference or with one that does not match, give
  no entry.  An entry is a GUID, never \<open>null\<close> or \<open>undefined\<close>; the function computes a value
  and changes neither collection.
\<close>

theorem identifier_map_entries:
  "fst (fetch_lights v1Data data) = v1Data \<and>
   snd (fetch_lights v1Data data) v1Id =
     (case find (\<lambda>light. back_reference light v1Id) (rev data) of
        Some light \<Rightarrow> Some (light_id light)
      | None \<Rightarrow> None)"
  by (simp add: fetch_lights_def v1ToV2IdMap_def build_id_map_lookup)

text \<open>
  On the example collections: lights 5 and 7 are mapped to their GUIDs, the resource
  without a back-reference gives no entry, and a numeric id that no resource refers to is
  absent.
\<close>

theorem identifier_map_entries_example:
  "snd (fetch_lights legacy_lamps modern_lamps) ''5'' = Some ''guidA'' \<and>
   snd (fetch_lights legacy_lamps modern_lamps) ''7'' = Some ''guidB'' \<and>
   snd (fetch_lights legacy_lamps modern_lamps) ''9'' = None \<and>
   fst (fetch_lights legacy_lamps modern_lamps) = legacy_lamps"
  using identifier_map_entries [of legacy_lamps modern_lamps "''5''"]
    identifier_map_entries [of legacy_lamps modern_lamps "''7''"]
    identifier_map_entries [of legacy_lamps modern_lamps "''9''"]
  by (simp add: modern_lamps_def back_reference_def endsWith_def is_digit_def lights_path_def)

text \<open>
  C5 as stated asks that a light present in only one of the two collections is absent
  from the map.  The map is built from the modern collection alone: a modern resource
  whose back-reference names light 99 is entered although the legacy collection has no
  light 99.
\<close>

theorem identifier_map_light_of_modern_collection_only:
  "map_of legacy_lamps ''99'' = None \<and>
   snd (fetch_lights legacy_lamps [\<lparr>light_id = ''guidX'', id_v1 = Some ''/lights/99''\<rparr>]) ''99''
     = Some ''guidX''"
  by code_simp

section \<open>Properties of the Group Migrator\<close>

lemma lights_include_iff: "lights_include ls l \<longleftrightarrow> l \<in> set (lights_or_empty ls)"
  by (cases ls) (simp_all add: lights_include_def lights_or_empty_def)

lemma add_new_to_groups_trace:
  "(\<forall>p\<in>set gs. getGroup (fst p) = Inr (snd p)) \<Longrightarrow>
   add_new_to_groups getGroup (groupsWithOldLight gs old) new
     = concat (map (group_requests old new) gs)"
proof (induction gs)
  case Nil
  show ?case by simp
next
  case (Cons p gs)
  obtain groupId g where p: "p = (groupId, g)" by (cases p)
  from Cons show ?case
    by (simp add: p group_requests_def wants_new_light_def with_new_light_def Let_def
        lights_include_iff)
qed

lemma get_group_distinct:
  "distinct (map fst gs) \<Longrightarrow> p \<in> set gs \<Longrightarrow> get_group gs (fst p) = Inr (snd p)"
  by (cases p) (simp add: get_group_def)

lemma migrate_groups_trace:
  "distinct (map fst gs) \<Longrightarrow> migrate_groups gs old new = concat (map (group_requests old new) gs)"
  unfolding migrate_groups_def
  by (rule add_new_to_groups_trace) (simp add: get_group_distinct)

lemma mutations_of_trace:
  "filter is_mutation (concat (map (group_requests old new) gs))
     = map (\<lambda>p. PutGroupLights (fst p) (with_new_light new p)) (filter (wants_new_light old new) gs)"
  by (induction gs) (auto simp: group_requests_def wants_new_light_def)

lemma store_group_requests:
  "foldl store_request xs (group_requests old new y)
     = (if wants_new_light old new y
        then map (\<lambda>p. if fst p = fst y
                       then (fst p, (snd p)\<lparr>group_lights := Some (with_new_light new y)\<rparr>) else p) xs
        else xs)"
  by (simp add: group_requests_def wants_new_light_def)

lemma store_trace:
  "distinct (map fst ys) \<Longrightarrow>
   foldl store_request xs (concat (map (group_requests old new) ys))
     = map (\<lambda>p. case map_of (filter (wants_new_light old new) ys) (fst p) of
                   Some g \<Rightarrow> (fst p, (snd p)\<lparr>group_lights := Some (with_new_light new (fst p, g))\<rparr>)
                 | None \<Rightarrow> p) xs"
proof (induction ys arbitrary: xs)
  case Nil
  show ?case by simp
next
  case (Cons y ys)
  obtain k g where y: "y = (k, g)" by (cases y)
  from Cons.prems have fresh: "map_of (filter (wants_new_light old new) ys) k = None"
    by (auto simp: y map_of_eq_None_iff)
  from Cons.prems have "distinct (map fst ys)" by simp
  note IH = Cons.IH [OF this]
  show ?case
    by (auto simp: y IH store_group_requests fresh with_new_light_def)
qed

lemma map_of_wanted:
  "distinct (map fst gs) \<Longrightarrow> p \<in> set gs \<Longrightarrow>
   map_of (filter (wants_new_light old new) gs) (fst p)
     = (if wants_new_light old new p then Some (snd p) else None)"
proof (induction gs)
  case Nil
  then show ?case by simp
next
  case (Cons q gs)
  then show ?case
    by (cases p; cases q) (auto simp: map_of_eq_None_iff image_iff)
qed

lemma bridge_after_migration:
  assumes "distinct (map fst gs)"
  shows "foldl store_request gs (migrate_groups gs old new) = map (after_migration old new) gs"
proof -
  have "(case map_of (filter (wants_new_light old new) gs) (fst p) of
           Some g \<Rightarrow> (fst p, (snd p)\<lparr>group_lights := Some (with_new_light new (fst p, g))\<rparr>)
         | None \<Rightarrow> p) = after_migration old new p" if "p \<in> set gs" for p
    using map_of_wanted [OF assms that, of old new]
    by (simp add: after_migration_def with_new_light_def)
  then show ?thesis
    by (simp add: migrate_groups_trace [OF assms] store_trace [OF assms])
qed

lemma after_migration_settled: "\<not> wants_new_light old new (after_migration old new p)"
  by (simp add: after_migration_def wants_new_light_def with_new_light_def lights_include_def)

lemma fst_after_migration [simp]: "fst (after_migration old new p) = fst p"
  by (simp add: after_migration_def)

lemma add_new_to_groups_put:
  "PutGroupLights g ls \<in> set (add_new_to_groups getGroup ids new) \<Longrightarrow>
   \<exists>currentLights. ls = currentLights @ [new] \<and> new \<notin> set currentLights"
  by (induction ids) (auto simp: Let_def split: sum.splits if_splits)

lemma count_appended: "new \<notin> set xs \<Longrightarrow> length (filter ((=) new) (xs @ [new])) = 1"
  by (induction xs) auto

text \<open>
  C8 (Group Migrator).  Against a bridge that answers every request and whose groups have
  distinct ids: the mutating calls of the migration are, in the order of the groups, one
  \<open>PUT\<close> for every group whose light list holds the old light and not the new one,
  carrying that list with the new light appended at the end; so none is issued for a group
  that already holds the new light.  Every request of the migration, reading or writing, is
  about a group whose list holds the old light.  Once the bridge has stored the lists it
  was sent, a second migration with the same pair issues no mutating call.
\<close>

theorem group_migration:
  assumes "distinct (map fst gs)"
  shows
    "filter is_mutation (migrate_groups gs old new)
       = map (\<lambda>p. PutGroupLights (fst p) (lights_or_empty (group_lights (snd p)) @ [new]))
           (filter (\<lambda>p. lights_include (group_lights (snd p)) old \<and>
                        \<not> lights_include (group_lights (snd p)) new) gs) \<and>
     (\<forall>r\<in>set (migrate_groups gs old new).
        \<exists>p\<in>set gs. lights_include (group_lights (snd p)) old \<and> request_group r = Some (fst p)) \<and>
     filter is_mutation
       (migrate_groups (foldl store_request gs (migrate_groups gs old new)) old new) = []"
proof (intro conjI)
  show "filter is_mutation (migrate_groups gs old new)
       = map (\<lambda>p. PutGroupLights (fst p) (lights_or_empty (group_lights (snd p)) @ [new]))
           (filter (\<lambda>p. lights_include (group_lights (snd p)) old \<and>
                        \<not> lights_include (group_lights (snd p)) new) gs)"
    using mutations_of_trace [of old new gs]
    by (simp add: migrate_groups_trace [OF assms] wants_new_light_def [abs_def]
        with_new_light_def [abs_def])
  show "\<forall>r\<in>set (migrate_groups gs old new).
        \<exists>p\<in>set gs. lights_include (group_lights (snd p)) old \<and> request_group r = Some (fst p)"
    by (auto simp: migrate_groups_trace [OF assms] group_requests_def split: if_splits)
  have d: "distinct (map fst (map (after_migration old new) gs))"
    using assms by (simp add: comp_def)
  have "filter (wants_new_light old new) (map (after_migration old new) gs) = []"
    by (simp add: filter_empty_conv after_migration_settled)
  with mutations_of_trace [of old new "map (after_migration old new) gs"]
  show "filter is_mutation
       (migrate_groups (foldl store_request gs (migrate_groups gs old new)) old new) = []"
    unfolding bridge_after_migration [OF assms] migrate_groups_trace [OF d]
    by simp
qed

text \<open>
  On the example groups with old light 5 and new light 7: group 1 gets the list 5, 9, 7;
  group 2 is not touched; group 3 is fetched and left alone; the second run changes nothing.
\<close>

theorem group_migration_example:
  "distinct (map fst groups0) \<and>
   migrate_groups groups0 ''5'' ''7''
     = [GetGroup ''1'', PutGroupLights ''1'' [''5'', ''9'', ''7''], GetGroup ''3''] \<and>
   filter is_mutation (migrate_groups groups0 ''5'' ''7'')
     = [PutGroupLights ''1'' [''5'', ''9'', ''7'']] \<and>
   filter is_mutation
     (migrate_groups (foldl store_request groups0 (migrate_groups groups0 ''5'' ''7'')) ''5'' ''7'')
     = []"
proof -
  have d: "distinct (map fst groups0)"
    by (simp add: groups0_def)
  have run: "migrate_groups groups0 ''5'' ''7''
     = [GetGroup ''1'', PutGroupLights ''1'' [''5'', ''9'', ''7''], GetGroup ''3'']"
    by code_simp
  from group_migration [OF d, of "''5''" "''7''"] d run show ?thesis
    by simp
qed

section \<open>Properties of the Scene Migrator\<close>

lemma old_light_state_iff:
  "old_light_state sc l \<noteq> None \<longleftrightarrow> (\<exists>states. lightstates sc = Some states \<and> l \<in> fst ` set states)"
  by (cases "lightstates sc") (simp_all add: old_light_state_def map_of_eq_None_iff)

lemma scenesWithOldLight_iff:
  "(sceneId, sc) \<in> set (scenesWithOldLight getScene sceneIds old) \<longleftrightarrow>
     sceneId \<in> set sceneIds \<and> getScene sceneId = Inr sc \<and> involves_light sc old"
  by (induction sceneIds) (auto split: sum.splits)

lemma modify_scenes_requests:
  "r \<in> set (modify_scenes fails scenes old new) \<Longrightarrow>
   is_mutation r \<and> (\<exists>p\<in>set scenes. request_scene r = Some (fst p))"
  by (induction scenes) (auto simp: Let_def split: option.splits if_splits)

lemma modify_scenes_put:
  "PutSceneLights sc ls \<in> set (modify_scenes fails scenes old new) \<Longrightarrow>
   \<exists>currentLights. ls = currentLights @ [new] \<and> new \<notin> set currentLights"
  by (induction scenes)
    (auto simp: Let_def lights_include_def lights_or_empty_def split: option.splits if_splits)

text \<open>
  C9 (Scene Migrator two-phase isolation).  A scene is among the scenes collected by the
  first pass if and only if its id is one of the scene ids, its fetch succeeded, and its
  light list holds the old light or its light states have an entry for the old light.  The
  requests of the step are the fetches of all scene ids, in order and whatever their
  outcome, followed by mutating calls only, each about a collected scene.  A scene whose
  fetch failed is not collected and no mutating call is about it.
\<close>

theorem scene_discovery:
  "(\<forall>sceneId sc.
      (sceneId, sc) \<in> set (scenesWithOldLight getScene sceneIds old) \<longleftrightarrow>
        sceneId \<in> set sceneIds \<and> getScene sceneId = Inr sc \<and>
        (lights_include (scene_lights sc) old \<or>
         (\<exists>states. lightstates sc = Some states \<and> old \<in> fst ` set states))) \<and>
   (\<exists>mutations.
      migrate_scenes getScene fails sceneIds old new = map GetScene sceneIds @ mutations \<and>
      (\<forall>r\<in>set mutations. is_mutation r \<and>
         (\<exists>p\<in>set (scenesWithOldLight getScene sceneIds old). request_scene r = Some (fst p)))) \<and>
   (\<forall>sceneId e. getScene sceneId = Inl e \<longrightarrow>
      sceneId \<notin> fst ` set (scenesWithOldLight getScene sceneIds old) \<and>
      (\<forall>r\<in>set (migrate_scenes getScene fails sceneIds old new).
         is_mutation r \<longrightarrow> request_scene r \<noteq> Some sceneId))"
proof (intro conjI allI impI)
  fix sceneId sc
  show "(sceneId, sc) \<in> set (scenesWithOldLight getScene sceneIds old) \<longleftrightarrow>
        sceneId \<in> set sceneIds \<and> getScene sceneId = Inr sc \<and>
        (lights_include (scene_lights sc) old \<or>
         (\<exists>states. lightstates sc = Some states \<and> old \<in> fst ` set states))"
    using old_light_state_iff [of sc old]
    by (simp add: scenesWithOldLight_iff involves_light_def del: not_None_eq)
next
  show "\<exists>mutations.
      migrate_scenes getScene fails sceneIds old new = map GetScene sceneIds @ mutations \<and>
      (\<forall>r\<in>set mutations. is_mutation r \<and>
         (\<exists>p\<in>set (scenesWithOldLight getScene sceneIds old). request_scene r = Some (fst p)))"
    unfolding migrate_scenes_def using modify_scenes_requests by blast
next
  fix sceneId e
  assume failed: "getScene sceneId = Inl e"
  then show none: "sceneId \<notin> fst ` set (scenesWithOldLight getScene sceneIds old)"
    by (auto simp: scenesWithOldLight_iff)
  show "\<forall>r\<in>set (migrate_scenes getScene fails sceneIds old new).
         is_mutation r \<longrightarrow> request_scene r \<noteq> Some sceneId"
  proof (intro ballI impI)
    fix r
    assume r: "r \<in> set (migrate_scenes getScene fails sceneIds old new)" "is_mutation r"
    then have "r \<in> set (modify_scenes fails (scenesWithOldLight getScene sceneIds old) old new)"
      by (auto simp: migrate_scenes_def)
    from modify_scenes_requests [OF this] none show "request_scene r \<noteq> Some sceneId"
      by (auto simp: image_iff)
  qed
qed

text \<open>
  On the example scenes: the failed fetch of \<open>b\<close> does not stop the pass, \<open>c\<close> and \<open>d\<close>
  are still fetched, \<open>a\<close> and \<open>c\<close> are collected and only they are changed, after all
  four fetches.
\<close>

theorem scene_discovery_example:
  "getScene0 ''b'' = Inl RequestFailed \<and>
   scenesWithOldLight getScene0 [''a'', ''b'', ''c'', ''d''] ''5'' = [(''a'', scene_a), (''c'', scene_c)] \<and>
   migrate_scenes getScene0 (\<lambda>r. False) [''a'', ''b'', ''c'', ''d''] ''5'' ''7''
     = map GetScene [''a'', ''b'', ''c'', ''d'']
       @ [PutSceneLights ''a'' [''5'', ''7''], PutSceneLightstate ''c'' ''7'' [(''on'', JBool True)]]"
proof -
  have failed: "getScene0 ''b'' = Inl RequestFailed"
    by (simp add: getScene0_def)
  have found: "scenesWithOldLight getScene0 [''a'', ''b'', ''c'', ''d''] ''5''
      = [(''a'', scene_a), (''c'', scene_c)]"
    by (simp add: getScene0_def involves_light_def lights_include_def old_light_state_def
        scene_a_def scene_c_def scene_d_def)
  have run: "migrate_scenes getScene0 (\<lambda>r. False) [''a'', ''b'', ''c'', ''d''] ''5'' ''7''
     = map GetScene [''a'', ''b'', ''c'', ''d'']
       @ [PutSceneLights ''a'' [''5'', ''7''], PutSceneLightstate ''c'' ''7'' [(''on'', JBool True)]]"
    unfolding migrate_scenes_def found
    by (simp add: lights_include_def lights_or_empty_def old_light_state_def scene_a_def
        scene_c_def)
  from scene_discovery [of getScene0 "[''a'', ''b'', ''c'', ''d'']" "''5''" "\<lambda>r. False" "''7''"]
    failed found run show ?thesis
    by simp
qed

section \<open>Counting references\<close>

lemma count_light_ref_map_scan:
  "length (filter (\<lambda>e. is_light_ref e r)
     (map (\<lambda>e. if is_light_ref e old then e else scan_and_augment old new e) xs))
   = length (filter (\<lambda>e. is_light_ref e r) xs)"
  by (induction xs) (simp_all add: is_light_ref_scan_and_augment del: length_filter_map)

lemma count_light_ref_none:
  "\<not> some_light_ref xs r \<Longrightarrow> length (filter (\<lambda>e. is_light_ref e r) xs) = 0"
  by (induction xs) simp_all

lemma addLightReference_array_count:
  assumes "addLightReference (JArr xs) old new = (JArr ys, m)"
  shows "length (filter (\<lambda>e. is_light_ref e new) ys)
     = (if some_light_ref xs old \<and> \<not> some_light_ref xs new then 1
        else length (filter (\<lambda>e. is_light_ref e new) xs))"
proof -
  let ?zs = "map (\<lambda>e. if is_light_ref e old then e else scan_and_augment old new e) xs"
  from assms have ys: "ys = (if some_light_ref xs old \<and> \<not> some_light_ref xs new
      then ?zs @ [light_ref new] else ?zs)"
    by (simp add: scan_refinement(1) Let_def)
  show ?thesis
    unfolding ys
    using count_light_ref_map_scan [of new old new xs] count_light_ref_none [of xs new]
    by (simp add: is_light_ref_light_ref del: length_filter_map)
qed

section \<open>No reference added twice\<close>

text \<open>
  C4 (no duplicate reference), as the code has it.
  \<^item> Rules: every item the migrator appends to the conditions (or actions) of a rule has an
    address with the prefix of the new light that no item of the rule's own list has; and
    such an address occurs among the appended items exactly as often as the corresponding
    address of the old light occurs in the rule's own list (so twice, if the rule has two
    items on that address of the old light).
  \<^item> Scanner: after the scan of a sequence the number of its elements that match the new
    reference is one if the new reference was appended, which happens only when there was
    none, and is what it was otherwise.
  \<^item> Groups and scenes: a light list that is sent holds the new light exactly once.
\<close>

theorem no_reference_added_twice:
  "(modify_rule r old new = Inr (modifiedConditions, modifiedActions, needsUpdate) \<longrightarrow>
      (\<forall>i\<in>set (drop (length (rule_items (conditions r))) modifiedConditions).
          \<exists>suffix. has_address (light_address_prefix new @ suffix) i \<and>
                   \<not> itemAddressExists (conditions r) (light_address_prefix new @ suffix)) \<and>
      (\<forall>i\<in>set (drop (length (rule_items (actions r))) modifiedActions).
          \<exists>suffix. has_address (light_address_prefix new @ suffix) i \<and>
                   \<not> itemAddressExists (actions r) (light_address_prefix new @ suffix)) \<and>
      (\<forall>suffix.
          length (filter (has_address (light_address_prefix new @ suffix))
                    (drop (length (rule_items (conditions r))) modifiedConditions))
            = (if itemAddressExists (conditions r) (light_address_prefix new @ suffix) then 0
               else length (filter (has_address (light_address_prefix old @ suffix))
                              (rule_items (conditions r)))) \<and>
          length (filter (has_address (light_address_prefix new @ suffix))
                    (drop (length (rule_items (actions r))) modifiedActions))
            = (if itemAddressExists (actions r) (light_address_prefix new @ suffix) then 0
               else length (filter (has_address (light_address_prefix old @ suffix))
                              (rule_items (actions r)))))) \<and>
   (addLightReference (JArr xs) oldLightRid newLightRid = (JArr ys, modified) \<longrightarrow>
      length (filter (\<lambda>e. is_light_ref e newLightRid) ys)
        = (if some_light_ref xs oldLightRid \<and> \<not> some_light_ref xs newLightRid then 1
           else length (filter (\<lambda>e. is_light_ref e newLightRid) xs))) \<and>
   (PutGroupLights groupId groupLights \<in> set (add_new_to_groups getGroup groupIds new) \<longrightarrow>
      length (filter ((=) new) groupLights) = 1) \<and>
   (PutSceneLights sceneId sceneLights \<in> set (modify_scenes fails scenes old new) \<longrightarrow>
      length (filter ((=) new) sceneLights) = 1)"
proof (intro conjI impI)
  assume m: "modify_rule r old new = Inr (modifiedConditions, modifiedActions, needsUpdate)"
  note res = modify_rule_result [OF m]
  show "\<forall>i\<in>set (drop (length (rule_items (conditions r))) modifiedConditions).
          \<exists>suffix. has_address (light_address_prefix new @ suffix) i \<and>
                   \<not> itemAddressExists (conditions r) (light_address_prefix new @ suffix)"
    by (auto simp: res(1) dest: added_items_address)
  show "\<forall>i\<in>set (drop (length (rule_items (actions r))) modifiedActions).
          \<exists>suffix. has_address (light_address_prefix new @ suffix) i \<and>
                   \<not> itemAddressExists (actions r) (light_address_prefix new @ suffix)"
    by (auto simp: res(2) dest: added_items_address)
  show "\<forall>suffix.
          length (filter (has_address (light_address_prefix new @ suffix))
                    (drop (length (rule_items (conditions r))) modifiedConditions))
            = (if itemAddressExists (conditions r) (light_address_prefix new @ suffix) then 0
               else length (filter (has_address (light_address_prefix old @ suffix))
                              (rule_items (conditions r)))) \<and>
          length (filter (has_address (light_address_prefix new @ suffix))
                    (drop (length (rule_items (actions r))) modifiedActions))
            = (if itemAddressExists (actions r) (light_address_prefix new @ suffix) then 0
               else length (filter (has_address (light_address_prefix old @ suffix))
                              (rule_items (actions r))))"
    by (simp add: res(1,2) added_items_count)
next
  assume "addLightReference (JArr xs) oldLightRid newLightRid = (JArr ys, modified)"
  then show "length (filter (\<lambda>e. is_light_ref e newLightRid) ys)
        = (if some_light_ref xs oldLightRid \<and> \<not> some_light_ref xs newLightRid then 1
           else length (filter (\<lambda>e. is_light_ref e newLightRid) xs))"
    by (rule addLightReference_array_count)
next
  assume "PutGroupLights groupId groupLights \<in> set (add_new_to_groups getGroup groupIds new)"
  from add_new_to_groups_put [OF this] show "length (filter ((=) new) groupLights) = 1"
    using count_appended [of new] by blast
next
  assume "PutSceneLights sceneId sceneLights \<in> set (modify_scenes fails scenes old new)"
  from modify_scenes_put [OF this] show "length (filter ((=) new) sceneLights) = 1"
    using count_appended [of new] by blast
qed

theorem no_reference_added_twice_example:
  "modify_rule rule0 ''5'' ''7'' =
     Inr ([condition_on_eq, condition_on_dx,
           with_address condition_on_eq ''/lights/7/state/on'',
           with_address condition_on_dx ''/lights/7/state/on''],
          [action_old, action_new], True) \<and>
   length (filter (has_address ''/lights/7/state'') (drop 2 [action_old, action_new])) = 0 \<and>
   addLightReference (JArr [light_ref (Some ''guidA''), light_ref (Some ''guidC'')])
       (Some ''guidA'') (Some ''guidC'')
     = (JArr [light_ref (Some ''guidA''), light_ref (Some ''guidC'')], False) \<and>
   length (filter (\<lambda>e. is_light_ref e (Some ''guidC''))
             [light_ref (Some ''guidA''), light_ref (Some ''guidC'')]) = 1 \<and>
   PutGroupLights ''1'' [''5'', ''9'', ''7'']
     \<in> set (add_new_to_groups (get_group groups0) [''1'', ''3''] ''7'') \<and>
   length (filter ((=) ''7'') [''5'', ''9'', ''7'']) = 1 \<and>
   PutSceneLights ''a'' [''5'', ''7'']
     \<in> set (modify_scenes (\<lambda>r. False) [(''a'', scene_a), (''c'', scene_c)] ''5'' ''7'')"
proof -
  have rule: "modify_rule rule0 ''5'' ''7'' =
     Inr ([condition_on_eq, condition_on_dx,
           with_address condition_on_eq ''/lights/7/state/on'',
           with_address condition_on_dx ''/lights/7/state/on''],
          [action_old, action_new], True)"
    by code_simp
  have scan: "addLightReference (JArr [light_ref (Some ''guidA''), light_ref (Some ''guidC'')])
       (Some ''guidA'') (Some ''guidC'')
     = (JArr [light_ref (Some ''guidA''), light_ref (Some ''guidC'')], False)"
    by code_simp
  have grp: "PutGroupLights ''1'' [''5'', ''9'', ''7'']
     \<in> set (add_new_to_groups (get_group groups0) [''1'', ''3''] ''7'')"
    by (simp add: get_group_def groups0_def lights_or_empty_def)
  have scn: "PutSceneLights ''a'' [''5'', ''7'']
     \<in> set (modify_scenes (\<lambda>r. False) [(''a'', scene_a), (''c'', scene_c)] ''5'' ''7'')"
    by (simp add: lights_include_def lights_or_empty_def old_light_state_def scene_a_def
        scene_c_def)
  from no_reference_added_twice
    [of rule0 "''5''" "''7''"
      "[condition_on_eq, condition_on_dx, with_address condition_on_eq ''/lights/7/state/on'',
        with_address condition_on_dx ''/lights/7/state/on'']"
      "[action_old, action_new]" True
      "[light_ref (Some ''guidA''), light_ref (Some ''guidC'')]" "Some ''guidA''" "Some ''guidC''"
      "[light_ref (Some ''guidA''), light_ref (Some ''guidC'')]" False
      "''1''" "[''5'', ''9'', ''7'']" "get_group groups0" "[''1'', ''3'']"
      "''a''" "[''5'', ''7'']" "\<lambda>r. False" "[(''a'', scene_a), (''c'', scene_c)]"]
    rule scan grp scn
  show ?thesis
    by (simp add: has_address_def action_old_def action_new_def is_light_ref_def light_ref_def)
qed

text \<open>
  C4 as stated asks that the conditions array submitted for a rule never holds two items
  with the same address unless the rule already had them.  \<open>rule0\<close> has two conditions on
  one address of light 5 and none on light 7; each of the two is tested against the rule's
  own list, so both are added, and the array submitted holds two items with the address
  \<open>/lights/7/state/on\<close>.
\<close>

theorem rule_update_repeats_new_address:
  "rule_request ''1'' rule0 ''5'' ''7'' =
     Inr (Some (PutRule ''1''
       (Some [condition_on_eq, condition_on_dx,
              JObj [(''address'', JStr ''/lights/7/state/on''), (''operator'', JStr ''eq''),
                    (''value'', JStr ''true'')],
              JObj [(''address'', JStr ''/lights/7/state/on''), (''operator'', JStr ''dx'')]])
       (Some [action_old, action_new]))) \<and>
   \<not> itemAddressExists (conditions rule0) ''/lights/7/state/on''"
  by code_simp

section \<open>Properties of the Identity Transfer\<close>

text \<open>
  C7 (rename policy).  For a selection of two distinct lights of the legacy collection: in
  standard mode the old bulb is renamed to its original name followed by \<open>(old)\<close> and the
  new bulb to the old bulb's original name; in alternate mode no rename call is issued for
  the old bulb and the new bulb is renamed to the old bulb's original name followed by
  \<open>(new)\<close>.  Each rename is the legacy call and, if the bulb has a GUID, the modern call
  with the same name; both names are built from the old bulb's original name only.
\<close>

theorem rename_policy:
  assumes "map_of allV1Lights old = Some oldLight" and "map_of allV1Lights new = Some newLight"
    and "old \<noteq> []" and "new \<noteq> []" and "old \<noteq> new"
  shows
    "rename_targets False (light_name oldLight)
       = (light_name oldLight @ '' (old)'', light_name oldLight) \<and>
     rename_targets True (light_name oldLight)
       = (light_name oldLight, light_name oldLight @ '' (new)'') \<and>
     rename_bulbs allV1Lights idMap old new False
       = Some (PutLightName old (light_name oldLight @ '' (old)'')
                 # (case idMap old of
                      Some guid \<Rightarrow>
                        if guid \<noteq> []
                        then [PutLightMetadataName guid (light_name oldLight @ '' (old)'')] else []
                    | None \<Rightarrow> []),
               PutLightName new (light_name oldLight)
                 # (case idMap new of
                      Some guid \<Rightarrow>
                        if guid \<noteq> [] then [PutLightMetadataName guid (light_name oldLight)] else []
                    | None \<Rightarrow> [])) \<and>
     rename_bulbs allV1Lights idMap old new True
       = Some ([],
               PutLightName new (light_name oldLight @ '' (new)'')
                 # (case idMap new of
                      Some guid \<Rightarrow>
                        if guid \<noteq> []
                        then [PutLightMetadataName guid (light_name oldLight @ '' (new)'')] else []
                    | None \<Rightarrow> []))"
  using assms
  by (auto simp: rename_targets_def rename_bulbs_def rename_old_bulb_def rename_new_bulb_def
      rename_calls_def rid_text_def split: option.splits)

text \<open>
  With legacy lights 5 named \<open>Lamp\<close> and 7 named \<open>Lamp2\<close>, old 5 and new 7: standard mode
  renames 5 to \<open>Lamp (old)\<close> and 7 to \<open>Lamp\<close>; alternate mode leaves 5 alone and renames 7
  to \<open>Lamp (new)\<close>.
\<close>

theorem rename_policy_example:
  "rename_bulbs legacy_lamps (Map.empty(''5'' \<mapsto> ''guidA'', ''7'' \<mapsto> ''guidB'')) ''5'' ''7'' False
     = Some ([PutLightName ''5'' ''Lamp (old)'', PutLightMetadataName ''guidA'' ''Lamp (old)''],
             [PutLightName ''7'' ''Lamp'', PutLightMetadataName ''guidB'' ''Lamp'']) \<and>
   rename_bulbs legacy_lamps (Map.empty(''5'' \<mapsto> ''guidA'', ''7'' \<mapsto> ''guidB'')) ''5'' ''7'' True
     = Some ([], [PutLightName ''7'' ''Lamp (new)'', PutLightMetadataName ''guidB'' ''Lamp (new)''])"
proof -
  have old: "map_of legacy_lamps ''5'' = Some \<lparr>light_name = ''Lamp''\<rparr>"
    and new: "map_of legacy_lamps ''7'' = Some \<lparr>light_name = ''Lamp2''\<rparr>"
    by (simp_all add: legacy_lamps_def)
  from rename_policy [OF old new, of "Map.empty(''5'' \<mapsto> ''guidA'', ''7'' \<mapsto> ''guidB'')"]
  show ?thesis by simp
qed

section \<open>The Automation Migrator without a GUID\<close>

text \<open>
  C6 (automation migration with a missing GUID).  The identifier map below has a GUID for
  the old light 5 and none for the new light 7.  The step is not skipped: the instance that
  refers to the old light is fetched, the scanner is run with \<open>undefined\<close> as the new
  identifier, and the configuration is sent back with a reference \<open>{rid: undefined,
  rtype: 'light'}\<close> appended, which goes over the wire as \<open>{"rtype":"light"}\<close>.
\<close>

theorem automation_update_without_new_guid:
  "(Map.empty(''5'' \<mapsto> ''guidA'')) ''7'' = None \<and>
   migrate_automations (Map.empty(''5'' \<mapsto> ''guidA'')) ''5'' ''7''
       (\<lambda>i. Inr (Some instance0)) [instance0]
     = [GetBehaviorInstance ''b1'',
        PutBehaviorInstance ''b1''
          (JObj [(''targets'',
                  JArr [JObj [(''rid'', JStr ''guidA''), (''rtype'', JStr ''light'')],
                        JObj [(''rid'', JUndef), (''rtype'', JStr ''light'')]])])]"
  by code_simp

end
